theory Spec2Isabelle
  imports Complex_Main
begin

section \<open>Errors and values\<close>

text \<open>
  A handler either throws or returns. What is thrown is an \<open>HTTPException\<close> with its
  status and message, or an error of the store. A handler that runs to its end without a
  \<open>return\<close> statement yields \<open>undefined\<close>; handler results are therefore options.
\<close>

datatype error = HTTPException nat string | PostgresError

fun NotFound :: "error \<Rightarrow> bool" where
  "NotFound (HTTPException code m) = (code = 404)"
| "NotFound PostgresError = False"

text \<open>
  The value of the expression that computes \<open>totalPages\<close> is a JavaScript number. Only
  whole numbers and \<open>NaN\<close> arise there: the count is a whole number, and the only division
  has the literal \<open>0\<close> as its numerator.
\<close>

datatype number = Num int | NaN

fun truthy :: "number \<Rightarrow> bool" where
  "truthy (Num n) = (n \<noteq> 0)"
| "truthy NaN = False"

definition js_or :: "number \<Rightarrow> number \<Rightarrow> number" where
  "js_or a b = (if truthy a then a else b)"

definition zero_div :: "int \<Rightarrow> number" where
  "zero_div d = (if d = 0 then NaN else Num 0)"

fun Math_ceil :: "number \<Rightarrow> number" where
  "Math_ceil (Num n) = Num n"
| "Math_ceil NaN = NaN"

section \<open>Tables\<close>

text \<open>
  The numbers of a request are whole numbers of any size. The \<open>integer\<close> and \<open>serial\<close>
  columns of the store hold 32-bit integers: a statement that compares such a column
  with a number outside that range, or that computes a value outside it, fails with an
  error of the store. \<open>LIMIT\<close> and \<open>OFFSET\<close> take 64-bit integers. A text value must not
  contain the character with code 0. Text columns are strings; a nullable column is an
  option. Field names carry the table's initials because one name space holds them all.
\<close>

definition int4 :: "int \<Rightarrow> bool" where
  "int4 v = (- 2147483648 \<le> v \<and> v \<le> 2147483647)"

definition text_ok :: "string \<Rightarrow> bool" where
  "text_ok t = list_all (\<lambda>c. c \<noteq> CHR 0x00) t"

definition text_opt_ok :: "string option \<Rightarrow> bool" where
  "text_opt_ok t = (case t of None \<Rightarrow> True | Some x \<Rightarrow> text_ok x)"

record userRow =
  ur_id :: string
  ur_username :: string
  ur_password_hash :: string

text \<open>
  Modelled from the spec: the posts table (\<open>db/schemas/posts\<close> is not among the sources).
  Section 3 of the specification lists its columns; the handlers below read and write
  \<open>id\<close>, \<open>userId\<close>, \<open>title\<close>, \<open>url\<close>, \<open>content\<close>, \<open>points\<close>, \<open>commentCount\<close> and \<open>createdAt\<close>.
\<close>

record postRow =
  p_id :: int
  p_userId :: string
  p_title :: string
  p_url :: "string option"
  p_content :: "string option"
  p_points :: int
  p_commentCount :: int
  p_createdAt :: int

record commentRow =
  c_id :: int
  c_userId :: string
  c_postId :: int
  c_parentCommentId :: "int option"
  c_content :: string
  c_createdAt :: int
  c_depth :: int
  c_commentCount :: int
  c_points :: int

record postUpvoteRow =
  pu_id :: int
  pu_userId :: string
  pu_postId :: int
  pu_createdAt :: int

record commentUpvoteRow =
  cu_id :: int
  cu_userId :: string
  cu_commentId :: int
  cu_createdAt :: int

text \<open>
  The database: the five tables in insertion order, and the last value handed out by the
  sequence behind each \<open>serial\<close> id.
\<close>

record db =
  users :: "userRow list"
  posts :: "postRow list"
  comments :: "commentRow list"
  postUpvotes :: "postUpvoteRow list"
  commentUpvotes :: "commentUpvoteRow list"
  posts_id_seq :: int
  comments_id_seq :: int
  post_upvote_id_seq :: int
  comments_post_upvote_id_seq :: int

text \<open>
  The user that the session middleware puts into the request context. Its id is read
  from the store.
\<close>

record user =
  u_id :: string
  u_username :: string

section \<open>Statements of the store\<close>

text \<open>\<open>const [x] = rows\<close>: the first row, or \<open>undefined\<close>.\<close>

definition first :: "'a list \<Rightarrow> 'a option" where
  "first rows = (case rows of [] \<Rightarrow> None | r # _ \<Rightarrow> Some r)"

text \<open>
  \<open>UPDATE t SET ... WHERE w RETURNING ...\<close>: whether the new value of the integer column
  fits in every row the statement updates (it fails otherwise), the table afterwards,
  and the rows returned.
\<close>

definition fits :: "('r \<Rightarrow> bool) \<Rightarrow> ('r \<Rightarrow> int) \<Rightarrow> 'r list \<Rightarrow> bool" where
  "fits w v rows = list_all (\<lambda>r. int4 (v r)) (filter w rows)"

definition sql_update :: "('r \<Rightarrow> bool) \<Rightarrow> ('r \<Rightarrow> 'r) \<Rightarrow> 'r list \<Rightarrow> 'r list" where
  "sql_update w f rows = map (\<lambda>r. if w r then f r else r) rows"

definition sql_returning :: "('r \<Rightarrow> bool) \<Rightarrow> ('r \<Rightarrow> 'r) \<Rightarrow> 'r list \<Rightarrow> 'r list" where
  "sql_returning w f rows = map f (filter w rows)"

definition sql_delete :: "('r \<Rightarrow> bool) \<Rightarrow> 'r list \<Rightarrow> 'r list" where
  "sql_delete w rows = filter (\<lambda>r. \<not> w r) rows"

text \<open>
  The next value of the sequence behind a \<open>serial\<close> column, from the last value handed
  out: the sequence ends at the largest 32-bit integer and fails beyond it. An insert
  draws its id first and then fails if a row has that id already (the primary key).
\<close>

definition nextval :: "int \<Rightarrow> error + int" where
  "nextval last_value =
     (if last_value + 1 \<le> 2147483647 then Inr (last_value + 1) else Inl PostgresError)"

text \<open>
  \<open>db.transaction\<close>: the body runs on the state; if it throws, every write it made to
  the tables is rolled back and the exception propagates. What the body drew from the
  sequences stays drawn: sequences are not rolled back.
\<close>

definition rollback :: "db \<Rightarrow> db \<Rightarrow> db" where
  "rollback s s' =
     s\<lparr>posts_id_seq := posts_id_seq s', comments_id_seq := comments_id_seq s',
       post_upvote_id_seq := post_upvote_id_seq s',
       comments_post_upvote_id_seq := comments_post_upvote_id_seq s'\<rparr>"

definition transaction :: "(db \<Rightarrow> (error + 'a) \<times> db) \<Rightarrow> db \<Rightarrow> (error + 'a) \<times> db" where
  "transaction body s =
     (case body s of
        (Inl e, s') \<Rightarrow> (Inl e, rollback s s')
      | (Inr v, s') \<Rightarrow> (Inr v, s'))"

text \<open>The \<open>loggedIn\<close> middleware.\<close>

definition loggedIn :: "user option \<Rightarrow> error + user" where
  "loggedIn u = (case u of None \<Rightarrow> Inl (HTTPException 401 ''Un-Authoraized'') | Some x \<Rightarrow> Inr x)"

section \<open>Responses\<close>

record 'a SuccessResponse =
  success :: bool
  message :: string
  data :: 'a

record pagination =
  page :: int
  totalPages :: number

record 'a paginatedResponse = "'a SuccessResponse" +
  pagination :: pagination

record author =
  a_username :: string
  a_id :: string

record postUpvoteData =
  count :: int
  isUpvoted :: bool

record commentUpvoteData =
  cud_count :: int
  cud_commentUpvotes :: "string list"

section \<open>Toggling an upvote\<close>

text \<open>
  \<open>postRouter.post("/:id/upvote")\<close>. The route parameter \<open>id\<close> is a number; the model
  takes whole numbers, and the first statement that compares \<open>id\<close> with an integer
  column fails when \<open>id\<close> is not a 32-bit integer. An update that would take the points
  out of the 32-bit range fails as well. The transaction body returns the updated
  points; \<open>pointsChanges\<close> is a variable of the handler that the body assigns, so the
  model's body returns both.
  The body looks the existing vote up through \<open>db\<close> and not through \<open>tx\<close>; requests are
  modelled one after the other, where both read the same rows.
\<close>

definition upvotePost_tx :: "int \<Rightarrow> user \<Rightarrow> int \<Rightarrow> db \<Rightarrow> (error + int \<times> int) \<times> db" where
  "upvotePost_tx id' usr now s =
     (if int4 id' then
        (let existingUpvote =
               first (filter (\<lambda>r. pu_postId r = id' \<and> pu_userId r = u_id usr) (postUpvotes s));
             pointsChanges = (if existingUpvote \<noteq> None then - 1 else 1);
             bump = (\<lambda>p. p\<lparr>p_points := p_points p + pointsChanges\<rparr>)
         in if fits (\<lambda>p. p_id p = id') (\<lambda>p. p_points p + pointsChanges) (posts s) then
              (let updated = first (sql_returning (\<lambda>p. p_id p = id') bump (posts s));
                   s1 = s\<lparr>posts := sql_update (\<lambda>p. p_id p = id') bump (posts s)\<rparr>
               in case updated of
                    None \<Rightarrow> (Inl (HTTPException 404 ''Post not Found''), s1)
                  | Some u \<Rightarrow>
                      (case existingUpvote of
                         Some e \<Rightarrow>
                           (Inr (p_points u, pointsChanges),
                            s1\<lparr>postUpvotes :=
                                 sql_delete (\<lambda>r. pu_id r = pu_id e) (postUpvotes s1)\<rparr>)
                       | None \<Rightarrow>
                           (case nextval (post_upvote_id_seq s1) of
                              Inl err \<Rightarrow> (Inl err, s1)
                            | Inr nid \<Rightarrow>
                                (let s2 = s1\<lparr>post_upvote_id_seq := nid\<rparr>
                                 in if nid \<in> set (map pu_id (postUpvotes s2))
                                    then (Inl PostgresError, s2)
                                    else (Inr (p_points u, pointsChanges),
                                          s2\<lparr>postUpvotes := postUpvotes s2 @
                                               [\<lparr>pu_id = nid, pu_userId = u_id usr,
                                                 pu_postId = id', pu_createdAt = now\<rparr>]\<rparr>)))))
            else (Inl PostgresError, s))
      else (Inl PostgresError, s))"

definition postRouter_upvote ::
  "user option \<Rightarrow> int \<Rightarrow> int \<Rightarrow> db \<Rightarrow> (error + postUpvoteData SuccessResponse option) \<times> db" where
  "postRouter_upvote ctx id' now s =
     (case loggedIn ctx of
        Inl e \<Rightarrow> (Inl e, s)
      | Inr usr \<Rightarrow>
          (case transaction (upvotePost_tx id' usr now) s of
             (Inl e, s') \<Rightarrow> (Inl e, s')
           | (Inr (points, pointsChanges), s') \<Rightarrow>
               (Inr (Some \<lparr>success = True, message = ''Post updated'',
                           data = \<lparr>count = points, isUpvoted = (pointsChanges > 0)\<rparr>\<rparr>), s')))"

text \<open>\<open>commentsRouter.post("/:id/upvote")\<close>.\<close>

definition upvoteComment_tx :: "int \<Rightarrow> user \<Rightarrow> int \<Rightarrow> db \<Rightarrow> (error + int \<times> int) \<times> db" where
  "upvoteComment_tx id' usr now s =
     (if int4 id' then
        (let existingUpvote =
               first (filter (\<lambda>r. cu_commentId r = id' \<and> cu_userId r = u_id usr)
                        (commentUpvotes s));
             pointsChange = (if existingUpvote \<noteq> None then - 1 else 1);
             bump = (\<lambda>c. c\<lparr>c_points := c_points c + pointsChange\<rparr>)
         in if fits (\<lambda>c. c_id c = id') (\<lambda>c. c_points c + pointsChange) (comments s) then
              (let updated = first (sql_returning (\<lambda>c. c_id c = id') bump (comments s));
                   s1 = s\<lparr>comments := sql_update (\<lambda>c. c_id c = id') bump (comments s)\<rparr>
               in case updated of
                    None \<Rightarrow> (Inl (HTTPException 404 ''Comment not found''), s1)
                  | Some u \<Rightarrow>
                      (case existingUpvote of
                         Some e \<Rightarrow>
                           (Inr (c_points u, pointsChange),
                            s1\<lparr>commentUpvotes :=
                                 sql_delete (\<lambda>r. cu_id r = cu_id e) (commentUpvotes s1)\<rparr>)
                       | None \<Rightarrow>
                           (case nextval (comments_post_upvote_id_seq s1) of
                              Inl err \<Rightarrow> (Inl err, s1)
                            | Inr nid \<Rightarrow>
                                (let s2 = s1\<lparr>comments_post_upvote_id_seq := nid\<rparr>
                                 in if nid \<in> set (map cu_id (commentUpvotes s2))
                                    then (Inl PostgresError, s2)
                                    else (Inr (c_points u, pointsChange),
                                          s2\<lparr>commentUpvotes := commentUpvotes s2 @
                                               [\<lparr>cu_id = nid, cu_userId = u_id usr,
                                                 cu_commentId = id', cu_createdAt = now\<rparr>]\<rparr>)))))
            else (Inl PostgresError, s))
      else (Inl PostgresError, s))"

definition commentsRouter_upvote ::
  "user option \<Rightarrow> int \<Rightarrow> int \<Rightarrow> db \<Rightarrow> (error + commentUpvoteData SuccessResponse option) \<times> db" where
  "commentsRouter_upvote ctx id' now s =
     (case loggedIn ctx of
        Inl e \<Rightarrow> (Inl e, s)
      | Inr usr \<Rightarrow>
          (case transaction (upvoteComment_tx id' usr now) s of
             (Inl e, s') \<Rightarrow> (Inl e, s')
           | (Inr (points, pointsChange), s') \<Rightarrow>
               (Inr (Some \<lparr>success = True, message = ''Comment updated'',
                           data = \<lparr>cud_count = points,
                                   cud_commentUpvotes =
                                     (if pointsChange = 1 then [u_id usr] else [])\<rparr>\<rparr>), s')))"

section \<open>Creating posts and comments\<close>

text \<open>
  \<open>postRouter.post("/")\<close>. The validated form (\<open>createPostSchema\<close>, not among the sources)
  is taken as the handler's arguments. \<open>points\<close> and \<open>commentCount\<close> take their default 0,
  \<open>createdAt\<close> the time of the insert.
\<close>

definition postRouter_create ::
  "user option \<Rightarrow> string \<Rightarrow> string option \<Rightarrow> string option \<Rightarrow> int \<Rightarrow> db
     \<Rightarrow> (error + int option SuccessResponse option) \<times> db" where
  "postRouter_create ctx title content url now s =
     (case loggedIn ctx of
        Inl e \<Rightarrow> (Inl e, s)
      | Inr usr \<Rightarrow>
          (if text_ok title \<and> text_opt_ok content \<and> text_opt_ok url then
             (case nextval (posts_id_seq s) of
                Inl err \<Rightarrow> (Inl err, s)
              | Inr nid \<Rightarrow>
                  (let s1 = s\<lparr>posts_id_seq := nid\<rparr>;
                       row = \<lparr>p_id = nid, p_userId = u_id usr, p_title = title,
                              p_url = url, p_content = content, p_points = 0,
                              p_commentCount = 0, p_createdAt = now\<rparr>
                   in if nid \<in> set (map p_id (posts s1)) then (Inl PostgresError, s1)
                      else (let post = first [row]
                            in (Inr (Some \<lparr>success = True,
                                           message = ''Post created Successfully'',
                                           data = map_option p_id post\<rparr>),
                                s1\<lparr>posts := posts s1 @ [row]\<rparr>))))
           else (Inl PostgresError, s)))"

text \<open>
  The comment that the create handlers put into their response: the inserted row with
  empty \<open>commentUpvotes\<close> and \<open>childComments\<close> and the author taken from the session.
\<close>

record commentJson =
  cj_row :: commentRow
  cj_author :: "author option"
  cj_commentUpvotes :: "string list"

record commentWithChildren = commentJson +
  cj_childComments :: "commentJson list"

definition created_comment_json :: "user \<Rightarrow> commentRow \<Rightarrow> commentWithChildren SuccessResponse" where
  "created_comment_json usr comment =
     \<lparr>success = True, message = ''Comment craeted'',
      data = \<lparr>cj_row = comment,
              cj_author = Some \<lparr>a_username = u_username usr, a_id = u_id usr\<rparr>,
              cj_commentUpvotes = [], cj_childComments = []\<rparr>\<rparr>"

text \<open>
  \<open>INSERT INTO comments ... RETURNING ...\<close> with the values the handlers give; the other
  columns take their defaults (\<open>commentCount\<close> and \<open>points\<close> 0, \<open>createdAt\<close> now, the id from
  the sequence). The statement fails before it draws an id if the content is no text
  value or the depth no 32-bit integer.
\<close>

definition insert_comment ::
  "string \<Rightarrow> string \<Rightarrow> int \<Rightarrow> int option \<Rightarrow> int \<Rightarrow> int \<Rightarrow> db
     \<Rightarrow> (error + commentRow list) \<times> db" where
  "insert_comment content userId postId parentCommentId depth now s =
     (if text_ok content \<and> int4 depth then
        (case nextval (comments_id_seq s) of
           Inl err \<Rightarrow> (Inl err, s)
         | Inr nid \<Rightarrow>
             (let s1 = s\<lparr>comments_id_seq := nid\<rparr>;
                  row = \<lparr>c_id = nid, c_userId = userId, c_postId = postId,
                         c_parentCommentId = parentCommentId, c_content = content,
                         c_createdAt = now, c_depth = depth, c_commentCount = 0, c_points = 0\<rparr>
              in if nid \<in> set (map c_id (comments s1)) then (Inl PostgresError, s1)
                 else (Inr [row], s1\<lparr>comments := comments s1 @ [row]\<rparr>)))
      else (Inl PostgresError, s))"

text \<open>
  \<open>postRouter.post("/:id/comment")\<close>. The insert names neither \<open>parentCommentId\<close> nor
  \<open>depth\<close>: they take the column defaults, null and 0.
\<close>

definition createComment_tx ::
  "int \<Rightarrow> string \<Rightarrow> user \<Rightarrow> int \<Rightarrow> db \<Rightarrow> (error + commentRow list) \<times> db" where
  "createComment_tx id' content usr now s =
     (if int4 id' then
        (let bump = (\<lambda>p. p\<lparr>p_commentCount := p_commentCount p + 1\<rparr>)
         in if fits (\<lambda>p. p_id p = id') (\<lambda>p. p_commentCount p + 1) (posts s) then
              (let updated = first (sql_returning (\<lambda>p. p_id p = id') bump (posts s));
                   s1 = s\<lparr>posts := sql_update (\<lambda>p. p_id p = id') bump (posts s)\<rparr>
               in case updated of
                    None \<Rightarrow> (Inl (HTTPException 404 ''Post not found''), s1)
                  | Some u \<Rightarrow> insert_comment content (u_id usr) id' None 0 now s1)
            else (Inl PostgresError, s))
      else (Inl PostgresError, s))"

text \<open>
  The handler builds the response with \<open>c.json(...)\<close> and ends without returning it: its
  value is \<open>undefined\<close>.
\<close>

definition postRouter_comment ::
  "user option \<Rightarrow> int \<Rightarrow> string \<Rightarrow> int \<Rightarrow> db
     \<Rightarrow> (error + commentWithChildren SuccessResponse option) \<times> db" where
  "postRouter_comment ctx id' content now s =
     (case loggedIn ctx of
        Inl e \<Rightarrow> (Inl e, s)
      | Inr usr \<Rightarrow>
          (case transaction (createComment_tx id' content usr now) s of
             (Inl e, s') \<Rightarrow> (Inl e, s')
           | (Inr rows, s') \<Rightarrow>
               (let commnets = first rows;
                    discarded = map_option (created_comment_json usr) commnets
                in (Inr None, s'))))"

text \<open>
  \<open>commentsRouter.post("/:id")\<close>: a reply to the comment \<open>id\<close>. The depth of the reply is
  computed by the handler, one more than the parent's.
\<close>

definition createReply_tx ::
  "int \<Rightarrow> string \<Rightarrow> user \<Rightarrow> int \<Rightarrow> db \<Rightarrow> (error + commentRow list) \<times> db" where
  "createReply_tx id' content usr now s =
     (if int4 id' then
        (case first (filter (\<lambda>c. c_id c = id') (comments s)) of
           None \<Rightarrow> (Inl (HTTPException 404 ''Comment not found''), s)
         | Some parentComment \<Rightarrow>
             (let postId = c_postId parentComment;
                  bumpC = (\<lambda>c. c\<lparr>c_commentCount := c_commentCount c + 1\<rparr>)
              in if fits (\<lambda>c. c_id c = c_id parentComment) (\<lambda>c. c_commentCount c + 1)
                      (comments s) then
                   (let updateParentComment =
                          first (sql_returning (\<lambda>c. c_id c = c_id parentComment) bumpC
                                   (comments s));
                        s1 = s\<lparr>comments :=
                                sql_update (\<lambda>c. c_id c = c_id parentComment) bumpC (comments s)\<rparr>;
                        bumpP = (\<lambda>p. p\<lparr>p_commentCount := p_commentCount p + 1\<rparr>)
                    in if fits (\<lambda>p. p_id p = postId) (\<lambda>p. p_commentCount p + 1) (posts s1) then
                         (let updatedPost =
                                first (sql_returning (\<lambda>p. p_id p = postId) bumpP (posts s1));
                              s2 = s1\<lparr>posts := sql_update (\<lambda>p. p_id p = postId) bumpP (posts s1)\<rparr>
                          in if updateParentComment = None \<or> updatedPost = None
                             then (Inl (HTTPException 404 ''Error creating comment''), s2)
                             else insert_comment content (u_id usr) postId
                                    (Some (c_id parentComment)) (c_depth parentComment + 1) now s2)
                       else (Inl PostgresError, s1))
                 else (Inl PostgresError, s)))
      else (Inl PostgresError, s))"

definition commentsRouter_post ::
  "user option \<Rightarrow> int \<Rightarrow> string \<Rightarrow> int \<Rightarrow> db
     \<Rightarrow> (error + commentWithChildren SuccessResponse option) \<times> db" where
  "commentsRouter_post ctx id' content now s =
     (case loggedIn ctx of
        Inl e \<Rightarrow> (Inl e, s)
      | Inr usr \<Rightarrow>
          (case transaction (createReply_tx id' content usr now) s of
             (Inl e, s') \<Rightarrow> (Inl e, s')
           | (Inr rows, s') \<Rightarrow>
               (let comment = first rows;
                    discarded = map_option (created_comment_json usr) comment
                in (Inr None, s'))))"

section \<open>Listings\<close>

text \<open>
  The validated query (\<open>paginationSchema\<close>, not among the sources) is taken as a record.
  \<open>sortBy\<close> and \<open>order\<close> stay strings: the handlers compare them with \<open>"points"\<close> and
  \<open>"desc"\<close> and treat every other value alike.
\<close>

record query =
  q_limit :: int
  q_page :: int
  q_sortBy :: string
  q_order :: string
  q_author :: "string option"
  q_site :: "string option"

text \<open>
  \<open>ORDER BY\<close> one integer column, ascending or descending. Rows with equal keys keep
  their table order (the store leaves that order open). The query builder writes a
  \<open>LIMIT\<close> clause only for a limit that is not negative, and an \<open>OFFSET\<close> clause only for an
  offset that is not zero; \<open>LIMIT n\<close> keeps the first \<open>n\<close> rows, \<open>OFFSET n\<close> skips \<open>n\<close>. The
  store rejects a negative offset and numbers that are no 64-bit integers. The listings
  return \<open>createdAt\<close> formatted by \<open>getIOSFormatDateQuery\<close> (not among the sources); the model
  returns the timestamp itself.
\<close>

definition order_by :: "string \<Rightarrow> ('r \<Rightarrow> int) \<Rightarrow> 'r list \<Rightarrow> 'r list" where
  "order_by ord col rows =
     (if ord = ''desc'' then sort_key (\<lambda>r. - col r) rows else sort_key col rows)"

definition limit_offset :: "int \<Rightarrow> int \<Rightarrow> 'r list \<Rightarrow> error + 'r list" where
  "limit_offset lmt off rows =
     (if 0 \<le> lmt \<and> 9223372036854775807 < lmt then Inl PostgresError
      else if off < 0 \<or> 9223372036854775807 < off then Inl PostgresError
      else if 0 \<le> lmt then Inr (take (nat lmt) (drop (nat off) rows))
      else Inr (drop (nat off) rows))"

definition left_join :: "('a \<Rightarrow> 'b \<Rightarrow> bool) \<Rightarrow> 'a list \<Rightarrow> 'b list \<Rightarrow> ('a \<times> 'b option) list" where
  "left_join on xs ys =
     concat (map (\<lambda>x. case filter (on x) ys of
                        [] \<Rightarrow> [(x, None)]
                      | ms \<Rightarrow> map (\<lambda>y. (x, Some y)) ms) xs)"

text \<open>\<open>Math.ceil(count?.count || 0 / limit)\<close>: the division binds tighter than \<open>||\<close>.\<close>

definition totalPages_of :: "int \<Rightarrow> int \<Rightarrow> number" where
  "totalPages_of cnt lmt = Math_ceil (js_or (Num cnt) (zero_div lmt))"

definition countDistinct :: "('r \<Rightarrow> int) \<Rightarrow> 'r list \<Rightarrow> int" where
  "countDistinct col rows = int (length (remdups (map col rows)))"

definition comment_sort_column :: "string \<Rightarrow> commentRow \<Rightarrow> int" where
  "comment_sort_column sortBy = (if sortBy = ''points'' then c_points else c_createdAt)"

definition post_sort_column :: "string \<Rightarrow> postRow \<Rightarrow> int" where
  "post_sort_column sortBy = (if sortBy = ''points'' then p_points else p_createdAt)"

text \<open>\<open>user?.id ?? ""\<close>.\<close>

definition viewer_id :: "user option \<Rightarrow> string" where
  "viewer_id ctx = (case ctx of None \<Rightarrow> [] | Some usr \<Rightarrow> u_id usr)"

text \<open>
  The relations loaded with a comment: its author (\<open>username\<close> and \<open>id\<close>), and of its
  upvotes at most one, that of the viewer (only \<open>userId\<close>).
\<close>

definition with_author :: "db \<Rightarrow> string \<Rightarrow> author option" where
  "with_author s uid =
     map_option (\<lambda>u. \<lparr>a_username = ur_username u, a_id = ur_id u\<rparr>)
       (first (filter (\<lambda>u. ur_id u = uid) (users s)))"

definition with_commentUpvotes :: "db \<Rightarrow> string \<Rightarrow> int \<Rightarrow> string list" where
  "with_commentUpvotes s viewer cid =
     take 1 (map cu_userId
       (filter (\<lambda>v. cu_commentId v = cid \<and> cu_userId v = viewer) (commentUpvotes s)))"

definition comment_json :: "db \<Rightarrow> string \<Rightarrow> commentRow \<Rightarrow> commentJson" where
  "comment_json s viewer c =
     \<lparr>cj_row = c, cj_author = with_author s (c_userId c),
      cj_commentUpvotes = with_commentUpvotes s viewer (c_id c)\<rparr>"

text \<open>\<open>commentsRouter.get("/:id/comments")\<close>: the children of the comment \<open>id\<close>.\<close>

definition commentsRouter_get_comments ::
  "user option \<Rightarrow> int \<Rightarrow> query \<Rightarrow> db \<Rightarrow> error + commentJson list paginatedResponse" where
  "commentsRouter_get_comments ctx id' q s =
     (if int4 id' then
        (let offset = (q_page q - 1) * q_limit q;
             matching = filter (\<lambda>c. c_parentCommentId c = Some id') (comments s);
             cnt = countDistinct c_id matching
         in case limit_offset (q_limit q) offset
                   (order_by (q_order q) (comment_sort_column (q_sortBy q)) matching) of
              Inl e \<Rightarrow> Inl e
            | Inr rows \<Rightarrow>
                Inr \<lparr>success = True, message = ''Comments fetched'',
                     data = map (comment_json s (viewer_id ctx)) rows,
                     pagination = \<lparr>page = q_page q,
                                   totalPages = totalPages_of cnt (q_limit q)\<rparr>\<rparr>)
      else Inl PostgresError)"

text \<open>
  \<open>postRouter.get("/:id/comments")\<close>: the top-level comments of the post \<open>id\<close>, each with
  its child comments up to the limit \<open>includeChildren ? 2 : 0\<close>, in the listing's order.
\<close>

definition child_comments :: "db \<Rightarrow> string \<Rightarrow> query \<Rightarrow> bool option \<Rightarrow> commentRow \<Rightarrow> commentJson list" where
  "child_comments s viewer q includeChildren c =
     map (comment_json s viewer)
       (take (if includeChildren = Some True then 2 else 0)
          (order_by (q_order q) (comment_sort_column (q_sortBy q))
             (filter (\<lambda>k. c_parentCommentId k = Some (c_id c)) (comments s))))"

definition comment_with_children ::
  "db \<Rightarrow> string \<Rightarrow> query \<Rightarrow> bool option \<Rightarrow> commentRow \<Rightarrow> commentWithChildren" where
  "comment_with_children s viewer q includeChildren c =
     \<lparr>cj_row = c, cj_author = with_author s (c_userId c),
      cj_commentUpvotes = with_commentUpvotes s viewer (c_id c),
      cj_childComments = child_comments s viewer q includeChildren c\<rparr>"

text \<open>The statements of the handler after its test for the post.\<close>

definition list_top_level ::
  "user option \<Rightarrow> int \<Rightarrow> query \<Rightarrow> bool option \<Rightarrow> db
     \<Rightarrow> error + commentWithChildren list paginatedResponse" where
  "list_top_level ctx id' q includeChildren s =
     (let offset = (q_page q - 1) * q_limit q;
          matching =
            filter (\<lambda>c. c_postId c = id' \<and> c_parentCommentId c = None) (comments s);
          counts = countDistinct c_id matching
      in case limit_offset (q_limit q) offset
                (order_by (q_order q) (comment_sort_column (q_sortBy q)) matching) of
           Inl e \<Rightarrow> Inl e
         | Inr rows \<Rightarrow>
             Inr \<lparr>success = True, message = ''Comments Fetched'',
                  data = map (comment_with_children s (viewer_id ctx) q includeChildren) rows,
                  pagination = \<lparr>page = q_page q,
                                totalPages = totalPages_of counts (q_limit q)\<rparr>\<rparr>)"

definition postRouter_get_comments ::
  "user option \<Rightarrow> int \<Rightarrow> query \<Rightarrow> bool option \<Rightarrow> db
     \<Rightarrow> error + commentWithChildren list paginatedResponse" where
  "postRouter_get_comments ctx id' q includeChildren s =
     (if int4 id' then
        (let postExists = first (filter (\<lambda>p. p_id p = id') (posts s))
         in if postExists \<noteq> None then Inl (HTTPException 404 ''Post not found'')
            else list_top_level ctx id' q includeChildren s)
      else Inl PostgresError)"

text \<open>
  The post listings: \<open>postRouter.get("/")\<close> and \<open>postRouter.get("/:id")\<close>. Posts are
  left-joined with their author and, when there is a viewer, with the viewer's upvotes;
  without a viewer the upvote table is not joined and \<open>isUpvoted\<close> is the literal false.
\<close>

record postJson =
  pj_id :: int
  pj_title :: string
  pj_url :: "string option"
  pj_points :: int
  pj_createdAt :: int
  pj_commentCount :: int
  pj_author :: "author option"
  pj_isUpvoted :: bool


definition post_filter :: "query \<Rightarrow> postRow \<Rightarrow> bool" where
  "post_filter q p =
     ((case q_author q of None \<Rightarrow> True | Some a \<Rightarrow> a = [] \<or> p_userId p = a) \<and>
      (case q_site q of None \<Rightarrow> True | Some u \<Rightarrow> u = [] \<or> p_url p = Some u))"

definition join_author :: "db \<Rightarrow> (postRow \<times> userRow option) list" where
  "join_author s = left_join (\<lambda>p u. p_userId p = ur_id u) (posts s) (users s)"

definition join_upvotes ::
  "user option \<Rightarrow> db \<Rightarrow> (postRow \<times> userRow option) list
     \<Rightarrow> ((postRow \<times> userRow option) \<times> postUpvoteRow option) list" where
  "join_upvotes ctx s rows =
     (case ctx of
        None \<Rightarrow> map (\<lambda>r. (r, None)) rows
      | Some usr \<Rightarrow>
          left_join (\<lambda>r v. pu_postId v = p_id (fst r) \<and> pu_userId v = u_id usr)
            rows (postUpvotes s))"

definition is_upvoted :: "user option \<Rightarrow> postUpvoteRow option \<Rightarrow> bool" where
  "is_upvoted ctx v = (case ctx of None \<Rightarrow> False | Some usr \<Rightarrow> v \<noteq> None)"

definition post_json ::
  "user option \<Rightarrow> (postRow \<times> userRow option) \<times> postUpvoteRow option \<Rightarrow> postJson" where
  "post_json ctx r =
     (let p = fst (fst r) in
      \<lparr>pj_id = p_id p, pj_title = p_title p, pj_url = p_url p, pj_points = p_points p,
       pj_createdAt = p_createdAt p, pj_commentCount = p_commentCount p,
       pj_author = map_option (\<lambda>u. \<lparr>a_username = ur_username u, a_id = ur_id u\<rparr>) (snd (fst r)),
       pj_isUpvoted = is_upvoted ctx (snd r)\<rparr>)"


definition postRouter_list ::
  "user option \<Rightarrow> query \<Rightarrow> db \<Rightarrow> error + postJson list paginatedResponse" where
  "postRouter_list ctx q s =
     (if text_opt_ok (q_author q) \<and> text_opt_ok (q_site q) then
        (let offset = (q_page q - 1) * q_limit q;
             cnt = countDistinct p_id (filter (post_filter q) (posts s));
             joined = filter (\<lambda>r. post_filter q (fst (fst r)))
                        (join_upvotes ctx s (join_author s))
         in case limit_offset (q_limit q) offset
                   (order_by (q_order q) (\<lambda>r. post_sort_column (q_sortBy q) (fst (fst r)))
                      joined) of
              Inl e \<Rightarrow> Inl e
            | Inr rows \<Rightarrow>
                Inr \<lparr>success = True, message = ''Post's Fetched Successfully'',
                     data = map (post_json ctx) rows,
                     pagination = \<lparr>page = q_page q,
                                   totalPages = totalPages_of cnt (q_limit q)\<rparr>\<rparr>)
      else Inl PostgresError)"


section \<open>Sequences of operations\<close>

text \<open>
  The handlers that write, as operations on the database; each carries the request's
  context and arguments and the time of the request. The listings are functions of the
  state and leave it as it is.
\<close>

datatype operation =
    CreatePost "user option" string "string option" "string option" int
  | UpvotePost "user option" int int
  | CreateComment "user option" int string int
  | CreateReply "user option" int string int
  | UpvoteComment "user option" int int

fun run_op :: "operation \<Rightarrow> db \<Rightarrow> db" where
  "run_op (CreatePost ctx title content url now) s = snd (postRouter_create ctx title content url now s)"
| "run_op (UpvotePost ctx id' now) s = snd (postRouter_upvote ctx id' now s)"
| "run_op (CreateComment ctx id' content now) s = snd (postRouter_comment ctx id' content now s)"
| "run_op (CreateReply ctx id' content now) s = snd (commentsRouter_post ctx id' content now s)"
| "run_op (UpvoteComment ctx id' now) s = snd (commentsRouter_upvote ctx id' now s)"

fun run_ops :: "operation list \<Rightarrow> db \<Rightarrow> db" where
  "run_ops [] s = s"
| "run_ops (op # ops) s = run_ops ops (run_op op s)"

definition empty_db :: db where
  "empty_db = \<lparr>users = [], posts = [], comments = [], postUpvotes = [], commentUpvotes = [],
               posts_id_seq = 0, comments_id_seq = 0, post_upvote_id_seq = 0,
               comments_post_upvote_id_seq = 0\<rparr>"

section \<open>Lookups and invariants\<close>

text \<open>The row a primary key selects, and whether a user's upvote row exists.\<close>

definition find_post :: "db \<Rightarrow> int \<Rightarrow> postRow option" where
  "find_post s i = first (filter (\<lambda>p. p_id p = i) (posts s))"

definition find_comment :: "db \<Rightarrow> int \<Rightarrow> commentRow option" where
  "find_comment s i = first (filter (\<lambda>c. c_id c = i) (comments s))"

definition post_upvotes_of :: "db \<Rightarrow> string \<Rightarrow> int \<Rightarrow> postUpvoteRow list" where
  "post_upvotes_of s uid i = filter (\<lambda>r. pu_postId r = i \<and> pu_userId r = uid) (postUpvotes s)"

definition comment_upvotes_of :: "db \<Rightarrow> string \<Rightarrow> int \<Rightarrow> commentUpvoteRow list" where
  "comment_upvotes_of s uid i =
     filter (\<lambda>r. cu_commentId r = i \<and> cu_userId r = uid) (commentUpvotes s)"

text \<open>
  Uniqueness of votes: no two rows of an upvote table have the same user and the same
  post (comment).
\<close>

definition upvote_unique :: "db \<Rightarrow> bool" where
  "upvote_unique s =
     (distinct (map (\<lambda>r. (pu_userId r, pu_postId r)) (postUpvotes s)) \<and>
      distinct (map (\<lambda>r. (cu_userId r, cu_commentId r)) (commentUpvotes s)))"

text \<open>Primary keys of the upvote tables: ids are distinct and were handed out by the sequence.\<close>

definition upvote_keys :: "db \<Rightarrow> bool" where
  "upvote_keys s =
     (distinct (map pu_id (postUpvotes s)) \<and>
      list_all (\<lambda>r. pu_id r \<le> post_upvote_id_seq s) (postUpvotes s) \<and>
      distinct (map cu_id (commentUpvotes s)) \<and>
      list_all (\<lambda>r. cu_id r \<le> comments_post_upvote_id_seq s) (commentUpvotes s))"

text \<open>
  When a toggle goes through: the id is a 32-bit integer, the points stay 32-bit
  integers in the rows the update finds, and, if a vote row is to be inserted, the
  sequence has a next value that no row has as its id.
\<close>

definition post_toggle_ok :: "db \<Rightarrow> string \<Rightarrow> int \<Rightarrow> bool" where
  "post_toggle_ok s uid i =
     (int4 i \<and>
      (if post_upvotes_of s uid i = []
       then fits (\<lambda>p. p_id p = i) (\<lambda>p. p_points p + 1) (posts s) \<and>
            post_upvote_id_seq s + 1 \<le> 2147483647 \<and>
            post_upvote_id_seq s + 1 \<notin> set (map pu_id (postUpvotes s))
       else fits (\<lambda>p. p_id p = i) (\<lambda>p. p_points p - 1) (posts s)))"

definition comment_toggle_ok :: "db \<Rightarrow> string \<Rightarrow> int \<Rightarrow> bool" where
  "comment_toggle_ok s uid i =
     (int4 i \<and>
      (if comment_upvotes_of s uid i = []
       then fits (\<lambda>c. c_id c = i) (\<lambda>c. c_points c + 1) (comments s) \<and>
            comments_post_upvote_id_seq s + 1 \<le> 2147483647 \<and>
            comments_post_upvote_id_seq s + 1 \<notin> set (map cu_id (commentUpvotes s))
       else fits (\<lambda>c. c_id c = i) (\<lambda>c. c_points c - 1) (comments s)))"

text \<open>
  The order a listing asks for, as a predicate on the rows returned: along the list the
  sort column never decreases, or with \<open>desc\<close> never increases.
\<close>

definition ordered :: "query \<Rightarrow> commentRow list \<Rightarrow> bool" where
  "ordered q rows =
     sorted_wrt (\<lambda>a b. if q_order q = ''desc''
                        then comment_sort_column (q_sortBy q) b \<le> comment_sort_column (q_sortBy q) a
                        else comment_sort_column (q_sortBy q) a \<le> comment_sort_column (q_sortBy q) b)
       rows"

text \<open>The specification's formula for the number of pages: the ceiling of count over limit.\<close>

definition spec_totalPages :: "int \<Rightarrow> int \<Rightarrow> int" where
  "spec_totalPages cnt lmt = \<lceil>real_of_int cnt / real_of_int lmt\<rceil>"

section \<open>A sample database\<close>

text \<open>
  Two users, three posts, and a thread on the first post: comment 1 with the replies 2, 3
  and 4. Alice has upvoted post 1 and the comments 2 and 4, Bob the comment 4.
\<close>

definition alice :: user where
  "alice = \<lparr>u_id = ''u1'', u_username = ''alice''\<rparr>"

definition bob :: user where
  "bob = \<lparr>u_id = ''u2'', u_username = ''bob''\<rparr>"

definition mk_post :: "int \<Rightarrow> string \<Rightarrow> int \<Rightarrow> int \<Rightarrow> int \<Rightarrow> postRow" where
  "mk_post i uid pts cc t =
     \<lparr>p_id = i, p_userId = uid, p_title = ''title'', p_url = None, p_content = Some ''text'',
      p_points = pts, p_commentCount = cc, p_createdAt = t\<rparr>"

definition mk_comment ::
  "int \<Rightarrow> string \<Rightarrow> int \<Rightarrow> int option \<Rightarrow> int \<Rightarrow> int \<Rightarrow> int \<Rightarrow> int \<Rightarrow> commentRow" where
  "mk_comment i uid pid par d cc pts t =
     \<lparr>c_id = i, c_userId = uid, c_postId = pid, c_parentCommentId = par, c_content = ''text'',
      c_createdAt = t, c_depth = d, c_commentCount = cc, c_points = pts\<rparr>"

definition demo_db :: db where
  "demo_db =
     \<lparr>users = [\<lparr>ur_id = ''u1'', ur_username = ''alice'', ur_password_hash = ''h1''\<rparr>,
               \<lparr>ur_id = ''u2'', ur_username = ''bob'', ur_password_hash = ''h2''\<rparr>],
      posts = [mk_post 1 ''u1'' 1 4 10, mk_post 2 ''u2'' 0 1 20, mk_post 3 ''u1'' 0 0 30],
      comments = [mk_comment 1 ''u2'' 1 None 0 3 0 11, mk_comment 2 ''u1'' 1 (Some 1) 1 0 1 12,
                  mk_comment 3 ''u2'' 1 (Some 1) 1 0 0 13, mk_comment 4 ''u1'' 1 (Some 1) 1 0 2 14,
                  mk_comment 5 ''u1'' 2 None 0 0 0 21],
      postUpvotes = [\<lparr>pu_id = 1, pu_userId = ''u1'', pu_postId = 1, pu_createdAt = 15\<rparr>],
      commentUpvotes = [\<lparr>cu_id = 1, cu_userId = ''u1'', cu_commentId = 2, cu_createdAt = 16\<rparr>,
                        \<lparr>cu_id = 2, cu_userId = ''u1'', cu_commentId = 4, cu_createdAt = 17\<rparr>,
                        \<lparr>cu_id = 3, cu_userId = ''u2'', cu_commentId = 4, cu_createdAt = 18\<rparr>],
      posts_id_seq = 3, comments_id_seq = 5, post_upvote_id_seq = 1,
      comments_post_upvote_id_seq = 3\<rparr>"




definition demo_query :: query where
  "demo_query = \<lparr>q_limit = 2, q_page = 1, q_sortBy = ''points'', q_order = ''desc'',
                 q_author = None, q_site = None\<rparr>"

section \<open>Properties of the statements\<close>

lemma first_eq_None: "first xs = None \<longleftrightarrow> xs = []"
  by (cases xs) (simp_all add: first_def)

lemma first_Cons: "first (x # xs) = Some x"
  by (simp add: first_def)

lemma first_Nil: "first [] = None"
  by (simp add: first_def)

lemma first_map: "first (map f xs) = map_option f (first xs)"
  by (cases xs) (simp_all add: first_def)

lemma filter_Cons_mem: "filter P xs = e # es \<Longrightarrow> e \<in> set xs \<and> P e"
proof -
  assume h: "filter P xs = e # es"
  have "e \<in> set (filter P xs)" by (simp add: h)
  then show ?thesis by simp
qed

lemma first_filter_Some_id: "first (filter P xs) = Some x \<Longrightarrow> P x"
  by (cases "filter P xs") (auto simp: first_def dest: filter_Cons_mem)

lemma distinct_map_eq:
  "distinct (map f xs) \<Longrightarrow> x \<in> set xs \<Longrightarrow> y \<in> set xs \<Longrightarrow> f x = f y \<Longrightarrow> x = y"
  by (auto simp: distinct_map dest: inj_onD)

lemma distinct_map_count:
  "distinct (map f xs) \<longleftrightarrow> (\<forall>k. length (filter (\<lambda>x. f x = k) xs) \<le> 1)"
proof (induction xs)
  case Nil
  then show ?case by simp
next
  case (Cons x xs)
  show ?case
  proof
    assume d: "distinct (map f (x # xs))"
    then have "f x \<notin> f ` set xs" by simp
    then have "\<forall>y\<in>set xs. f y \<noteq> f x" by (metis imageI)
    then have e: "filter (\<lambda>y. f y = f x) xs = []"
      by (simp add: filter_empty_conv)
    from d Cons have ih: "\<forall>k. length (filter (\<lambda>y. f y = k) xs) \<le> 1" by simp
    show "\<forall>k. length (filter (\<lambda>y. f y = k) (x # xs)) \<le> 1"
    proof
      fix k
      show "length (filter (\<lambda>y. f y = k) (x # xs)) \<le> 1"
      proof (cases "f x = k")
        case True
        with e show ?thesis by auto
      next
        case False
        with ih show ?thesis by simp
      qed
    qed
  next
    assume a: "\<forall>k. length (filter (\<lambda>y. f y = k) (x # xs)) \<le> 1"
    then have "length (filter (\<lambda>y. f y = f x) (x # xs)) \<le> 1" by blast
    then have "filter (\<lambda>y. f y = f x) xs = []" by simp
    then have "\<forall>y\<in>set xs. f y \<noteq> f x" by (simp add: filter_empty_conv)
    then have n: "f x \<notin> f ` set xs" by (metis imageE)
    have "\<forall>k. length (filter (\<lambda>y. f y = k) xs) \<le> 1"
    proof
      fix k
      from a have "length (filter (\<lambda>y. f y = k) (x # xs)) \<le> 1" by blast
      then show "length (filter (\<lambda>y. f y = k) xs) \<le> 1" by (simp split: if_splits)
    qed
    with Cons n show "distinct (map f (x # xs))" by simp
  qed
qed

lemma filter_sql_update:
  assumes "\<And>r. w (f r) = w r"
  shows "filter w (sql_update w f rows) = map f (filter w rows)"
  using assms by (induction rows) (simp_all add: sql_update_def)

lemma filter_sql_update_other:
  assumes "\<And>r. w r \<Longrightarrow> v (f r) = v r" and "\<And>r. v r \<Longrightarrow> \<not> w r"
  shows "filter v (sql_update w f rows) = filter v rows"
  using assms by (induction rows) (auto simp: sql_update_def)

lemma map_sql_update:
  assumes "\<And>r. g (f r) = g r"
  shows "map g (sql_update w f rows) = map g rows"
  using assms by (induction rows) (simp_all add: sql_update_def)

lemma first_filter_post_update:
  assumes "\<And>p. p_id (f p) = p_id p"
  shows "first (filter (\<lambda>p. p_id p = j) (sql_update (\<lambda>p. p_id p = i) f rows)) =
     (if j = i then map_option f (first (filter (\<lambda>p. p_id p = i) rows))
      else first (filter (\<lambda>p. p_id p = j) rows))"
proof (cases "j = i")
  case True
  then show ?thesis by (simp add: filter_sql_update assms first_map)
next
  case False
  have "filter (\<lambda>p. p_id p = j) (sql_update (\<lambda>p. p_id p = i) f rows) = filter (\<lambda>p. p_id p = j) rows"
    using False assms by (intro filter_sql_update_other) auto
  with False show ?thesis by simp
qed

lemma first_filter_comment_update:
  assumes "\<And>c. c_id (f c) = c_id c"
  shows "first (filter (\<lambda>c. c_id c = j) (sql_update (\<lambda>c. c_id c = i) f rows)) =
     (if j = i then map_option f (first (filter (\<lambda>c. c_id c = i) rows))
      else first (filter (\<lambda>c. c_id c = j) rows))"
proof (cases "j = i")
  case True
  then show ?thesis by (simp add: filter_sql_update assms first_map)
next
  case False
  have "filter (\<lambda>c. c_id c = j) (sql_update (\<lambda>c. c_id c = i) f rows) = filter (\<lambda>c. c_id c = j) rows"
    using False assms by (intro filter_sql_update_other) auto
  with False show ?thesis by simp
qed

lemma limit_offset_Inr:
  "limit_offset l off rows = Inr ys \<Longrightarrow>
   ys = (if 0 \<le> l then take (nat l) (drop (nat off) rows) else drop (nat off) rows)"
  by (simp add: limit_offset_def split: if_splits)

lemma rollback_self [simp]: "rollback s s = s"
  by (simp add: rollback_def)

section \<open>The number of pages\<close>

text \<open>
  Whenever the count is not zero, the expression of the three listings yields the count
  itself: the page size only enters the fallback \<open>0 / limit\<close>.
\<close>

lemma totalPages_of_count: "cnt \<noteq> 0 \<Longrightarrow> totalPages_of cnt lmt = Num cnt"
  by (simp add: totalPages_of_def js_or_def)

lemma totalPages_of_zero: "totalPages_of 0 lmt = (if lmt = 0 then NaN else Num 0)"
  by (simp add: totalPages_of_def js_or_def zero_div_def)

text \<open>
  C7. Claim: every listing returns \<open>totalPages = ceil(totalCount / limit)\<close>. The code
  returns the count instead. With the three posts of the sample database and a page size
  of 2, the post listing reports 3 pages, and so does the listing of the three replies to
  comment 1, where the specification's formula gives 2.
\<close>

theorem totalPages_is_count_not_ceiling:
  "map_sum (\<lambda>e. e) (\<lambda>r. totalPages (pagination r))
       (postRouter_list None demo_query demo_db) = Inr (Num 3) \<and>
   map_sum (\<lambda>e. e) (\<lambda>r. totalPages (pagination r))
       (commentsRouter_get_comments None 1 demo_query demo_db) = Inr (Num 3) \<and>
   q_limit demo_query = 2 \<and>
   spec_totalPages 3 2 = 2"
  by code_simp

section \<open>Creating comments\<close>

text \<open>
  What \<open>postRouter.post("/:id/comment")\<close> does for a logged-in user: an id that is no
  32-bit integer is an error of the store; without the post the handler throws the 404;
  both leave the database as it was. With the post, a counter that can grow, a content
  that is a text value and a fresh id from the sequence, the post's counter is
  incremented and the comment is appended, and the handler's value is \<open>undefined\<close>:
  \<open>Inr None\<close>.
\<close>

lemma postRouter_comment_bad_id:
  "\<not> int4 i \<Longrightarrow> postRouter_comment (Some usr) i content now s = (Inl PostgresError, s)"
  by (simp add: postRouter_comment_def loggedIn_def transaction_def createComment_tx_def)

lemma postRouter_comment_missing:
  assumes "int4 i" and "find_post s i = None"
  shows "postRouter_comment (Some usr) i content now s =
           (Inl (HTTPException 404 ''Post not found''), s)"
proof -
  from assms(2) have e: "filter (\<lambda>p. p_id p = i) (posts s) = []"
    by (simp add: find_post_def first_eq_None)
  show ?thesis
    using assms(1)
    by (simp add: postRouter_comment_def loggedIn_def transaction_def createComment_tx_def e
        fits_def sql_returning_def sql_update_def first_Nil rollback_def Let_def)
qed

lemma postRouter_comment_effect:
  assumes "int4 i" and "find_post s i = Some p"
    and "fits (\<lambda>p. p_id p = i) (\<lambda>p. p_commentCount p + 1) (posts s)"
    and "text_ok content"
    and "comments_id_seq s + 1 \<le> 2147483647"
    and "comments_id_seq s + 1 \<notin> set (map c_id (comments s))"
  shows "postRouter_comment (Some usr) i content now s =
     (Inr None,
      s\<lparr>posts := sql_update (\<lambda>p. p_id p = i) (\<lambda>p. p\<lparr>p_commentCount := p_commentCount p + 1\<rparr>) (posts s),
        comments := comments s @
          [\<lparr>c_id = comments_id_seq s + 1, c_userId = u_id usr, c_postId = i,
            c_parentCommentId = None, c_content = content, c_createdAt = now, c_depth = 0,
            c_commentCount = 0, c_points = 0\<rparr>],
        comments_id_seq := comments_id_seq s + 1\<rparr>)"
  using assms
  by (simp add: postRouter_comment_def loggedIn_def transaction_def createComment_tx_def
      insert_comment_def nextval_def int4_def find_post_def sql_returning_def first_map Let_def)

text \<open>
  C5. Claim: for an existing post, creating a top-level comment increments the post's
  \<open>commentCount\<close>, inserts the comment with no parent and depth 0, and returns the created
  comment as the success result. On the sample database Bob comments on post 2: the
  counter goes from 1 to 2 and comment 6 is inserted as claimed, but the handler's value
  is \<open>undefined\<close>, not a response carrying the comment.
\<close>

theorem createTopLevelComment_returns_nothing:
  "find_post demo_db 2 \<noteq> None \<and>
   fst (postRouter_comment (Some bob) 2 ''hello'' 100 demo_db) = Inr None \<and>
   map_option p_commentCount
     (find_post (snd (postRouter_comment (Some bob) 2 ''hello'' 100 demo_db)) 2) = Some 2 \<and>
   find_comment (snd (postRouter_comment (Some bob) 2 ''hello'' 100 demo_db)) 6 =
     Some \<lparr>c_id = 6, c_userId = ''u2'', c_postId = 2, c_parentCommentId = None,
           c_content = ''hello'', c_createdAt = 100, c_depth = 0, c_commentCount = 0,
           c_points = 0\<rparr>"
  by code_simp

text \<open>
  \<open>commentsRouter.post("/:id")\<close> likewise: without the parent comment, or without the
  parent's post, it throws a 404 and changes nothing; with both, and under the same
  conditions of the store, the two counters are incremented and the reply is appended
  one level below its parent, and the handler's value is \<open>undefined\<close>.
\<close>

lemma commentsRouter_post_bad_id:
  "\<not> int4 i \<Longrightarrow> commentsRouter_post (Some usr) i content now s = (Inl PostgresError, s)"
  by (simp add: commentsRouter_post_def loggedIn_def transaction_def createReply_tx_def)

lemma commentsRouter_post_missing:
  "int4 i \<Longrightarrow> find_comment s i = None \<Longrightarrow>
   commentsRouter_post (Some usr) i content now s =
     (Inl (HTTPException 404 ''Comment not found''), s)"
  by (simp add: commentsRouter_post_def loggedIn_def transaction_def createReply_tx_def
      find_comment_def)

lemma commentsRouter_post_orphan:
  assumes "int4 i" and "find_comment s i = Some c"
    and "fits (\<lambda>k. c_id k = i) (\<lambda>k. c_commentCount k + 1) (comments s)"
    and "find_post s (c_postId c) = None"
  shows "commentsRouter_post (Some usr) i content now s =
     (Inl (HTTPException 404 ''Error creating comment''), s)"
proof -
  from assms(2) have i: "c_id c = i"
    using first_filter_Some_id[of "\<lambda>c. c_id c = i" "comments s" c] by (simp add: find_comment_def)
  from assms(4) have e: "filter (\<lambda>p. p_id p = c_postId c) (posts s) = []"
    by (simp add: find_post_def first_eq_None)
  from assms i show ?thesis
    by (simp add: commentsRouter_post_def loggedIn_def transaction_def createReply_tx_def
        find_comment_def e fits_def sql_returning_def first_map first_Nil rollback_def Let_def)
qed

lemma commentsRouter_post_effect:
  assumes "int4 i" and c: "find_comment s i = Some c" and "find_post s (c_postId c) = Some p"
    and "fits (\<lambda>k. c_id k = i) (\<lambda>k. c_commentCount k + 1) (comments s)"
    and "fits (\<lambda>p. p_id p = c_postId c) (\<lambda>p. p_commentCount p + 1) (posts s)"
    and "text_ok content" and "int4 (c_depth c + 1)"
    and "comments_id_seq s + 1 \<le> 2147483647"
    and "comments_id_seq s + 1 \<notin> set (map c_id (comments s))"
  shows "commentsRouter_post (Some usr) i content now s =
     (Inr None,
      s\<lparr>comments :=
          sql_update (\<lambda>k. c_id k = i) (\<lambda>k. k\<lparr>c_commentCount := c_commentCount k + 1\<rparr>) (comments s) @
          [\<lparr>c_id = comments_id_seq s + 1, c_userId = u_id usr, c_postId = c_postId c,
            c_parentCommentId = Some i, c_content = content, c_createdAt = now,
            c_depth = c_depth c + 1, c_commentCount = 0, c_points = 0\<rparr>],
        posts := sql_update (\<lambda>p. p_id p = c_postId c)
                   (\<lambda>p. p\<lparr>p_commentCount := p_commentCount p + 1\<rparr>) (posts s),
        comments_id_seq := comments_id_seq s + 1\<rparr>)"
proof -
  from c have i: "c_id c = i"
    using first_filter_Some_id[of "\<lambda>c. c_id c = i" "comments s" c] by (simp add: find_comment_def)
  have m: "c_id ` set (sql_update (\<lambda>k. c_id k = i) (\<lambda>k. k\<lparr>c_commentCount := c_commentCount k + 1\<rparr>)
             (comments s)) = c_id ` set (comments s)"
  proof -
    have "map c_id (sql_update (\<lambda>k. c_id k = i) (\<lambda>k. k\<lparr>c_commentCount := c_commentCount k + 1\<rparr>)
             (comments s)) = map c_id (comments s)"
      by (rule map_sql_update) simp
    then have "set (map c_id (sql_update (\<lambda>k. c_id k = i)
             (\<lambda>k. k\<lparr>c_commentCount := c_commentCount k + 1\<rparr>) (comments s))) =
           set (map c_id (comments s))"
      by simp
    then show ?thesis by simp
  qed
  from assms i m show ?thesis
    by (simp add: commentsRouter_post_def loggedIn_def transaction_def createReply_tx_def
        insert_comment_def nextval_def find_comment_def find_post_def sql_returning_def
        first_map Let_def)
qed

text \<open>
  C1. Claim: for an existing parent comment, creating a reply increments the parent's and
  the post's \<open>commentCount\<close>, inserts the reply one level below its parent on the same
  post, and returns the created comment as the success result. On the sample database Bob
  replies to comment 2 (depth 1, on post 1): both counters are incremented and comment 6
  is inserted with depth 2, but the handler's value is \<open>undefined\<close>.
\<close>

theorem createReply_returns_nothing:
  "find_comment demo_db 2 \<noteq> None \<and>
   fst (commentsRouter_post (Some bob) 2 ''hello'' 100 demo_db) = Inr None \<and>
   map_option c_commentCount
     (find_comment (snd (commentsRouter_post (Some bob) 2 ''hello'' 100 demo_db)) 2) = Some 1 \<and>
   map_option p_commentCount
     (find_post (snd (commentsRouter_post (Some bob) 2 ''hello'' 100 demo_db)) 1) = Some 5 \<and>
   find_comment (snd (commentsRouter_post (Some bob) 2 ''hello'' 100 demo_db)) 6 =
     Some \<lparr>c_id = 6, c_userId = ''u2'', c_postId = 1, c_parentCommentId = Some 2,
           c_content = ''hello'', c_createdAt = 100, c_depth = 2, c_commentCount = 0,
           c_points = 0\<rparr>"
  by code_simp

section \<open>Toggling an upvote once\<close>

text \<open>
  The ways through the toggle of a post: the id is out of range; the post is missing;
  the points would leave the 32-bit range; the user has a vote row, and it is deleted by
  its id; the user has none, and the insert finds the sequence exhausted, or the next id
  taken, or goes through. Only the taken id leaves a trace when the handler throws: the
  sequence has moved on.
\<close>

lemma postRouter_upvote_bad_id:
  "\<not> int4 i \<Longrightarrow> postRouter_upvote (Some usr) i now s = (Inl PostgresError, s)"
  by (simp add: postRouter_upvote_def loggedIn_def transaction_def upvotePost_tx_def)

lemma postRouter_upvote_missing:
  assumes "int4 i" and "find_post s i = None"
  shows "postRouter_upvote (Some usr) i now s = (Inl (HTTPException 404 ''Post not Found''), s)"
proof -
  from assms(2) have e: "filter (\<lambda>p. p_id p = i) (posts s) = []"
    by (simp add: find_post_def first_eq_None)
  show ?thesis
    using assms(1)
    by (simp add: postRouter_upvote_def loggedIn_def transaction_def upvotePost_tx_def e fits_def
        sql_returning_def sql_update_def first_Nil rollback_def Let_def)
qed

lemma postRouter_upvote_overflow:
  assumes "int4 i"
    and "\<not> fits (\<lambda>p. p_id p = i)
            (\<lambda>p. p_points p + (if post_upvotes_of s (u_id usr) i = [] then 1 else - 1)) (posts s)"
  shows "postRouter_upvote (Some usr) i now s = (Inl PostgresError, s)"
  using assms
  by (cases "post_upvotes_of s (u_id usr) i")
    (simp_all add: postRouter_upvote_def loggedIn_def transaction_def upvotePost_tx_def
      post_upvotes_of_def first_Nil first_Cons Let_def)

lemma postRouter_upvote_delete:
  assumes "int4 i" and "find_post s i = Some p" and "post_upvotes_of s (u_id usr) i = e # es"
    and "fits (\<lambda>p. p_id p = i) (\<lambda>p. p_points p - 1) (posts s)"
  shows "postRouter_upvote (Some usr) i now s =
     (Inr (Some \<lparr>success = True, message = ''Post updated'',
                 data = \<lparr>count = p_points p - 1, isUpvoted = False\<rparr>\<rparr>),
      s\<lparr>posts := sql_update (\<lambda>p. p_id p = i) (\<lambda>p. p\<lparr>p_points := p_points p - 1\<rparr>) (posts s),
        postUpvotes := sql_delete (\<lambda>r. pu_id r = pu_id e) (postUpvotes s)\<rparr>)"
  using assms
  by (simp add: postRouter_upvote_def loggedIn_def transaction_def upvotePost_tx_def
      find_post_def post_upvotes_of_def sql_returning_def first_map first_Nil first_Cons Let_def)

lemma postRouter_upvote_exhausted:
  assumes "int4 i" and "find_post s i = Some p" and "post_upvotes_of s (u_id usr) i = []"
    and "fits (\<lambda>p. p_id p = i) (\<lambda>p. p_points p + 1) (posts s)"
    and "\<not> post_upvote_id_seq s + 1 \<le> 2147483647"
  shows "postRouter_upvote (Some usr) i now s = (Inl PostgresError, s)"
  using assms
  by (simp add: postRouter_upvote_def loggedIn_def transaction_def upvotePost_tx_def
      find_post_def post_upvotes_of_def sql_returning_def first_map first_Nil first_Cons
      nextval_def rollback_def Let_def)

lemma postRouter_upvote_conflict:
  assumes "int4 i" and "find_post s i = Some p" and "post_upvotes_of s (u_id usr) i = []"
    and "fits (\<lambda>p. p_id p = i) (\<lambda>p. p_points p + 1) (posts s)"
    and "post_upvote_id_seq s + 1 \<le> 2147483647"
    and "post_upvote_id_seq s + 1 \<in> set (map pu_id (postUpvotes s))"
  shows "postRouter_upvote (Some usr) i now s =
           (Inl PostgresError, s\<lparr>post_upvote_id_seq := post_upvote_id_seq s + 1\<rparr>)"
  using assms
  by (simp add: postRouter_upvote_def loggedIn_def transaction_def upvotePost_tx_def
      find_post_def post_upvotes_of_def sql_returning_def first_map first_Nil first_Cons
      nextval_def rollback_def Let_def)

lemma postRouter_upvote_insert:
  assumes "int4 i" and "find_post s i = Some p" and "post_upvotes_of s (u_id usr) i = []"
    and "fits (\<lambda>p. p_id p = i) (\<lambda>p. p_points p + 1) (posts s)"
    and "post_upvote_id_seq s + 1 \<le> 2147483647"
    and "post_upvote_id_seq s + 1 \<notin> set (map pu_id (postUpvotes s))"
  shows "postRouter_upvote (Some usr) i now s =
     (Inr (Some \<lparr>success = True, message = ''Post updated'',
                 data = \<lparr>count = p_points p + 1, isUpvoted = True\<rparr>\<rparr>),
      s\<lparr>posts := sql_update (\<lambda>p. p_id p = i) (\<lambda>p. p\<lparr>p_points := p_points p + 1\<rparr>) (posts s),
        postUpvotes := postUpvotes s @
          [\<lparr>pu_id = post_upvote_id_seq s + 1, pu_userId = u_id usr, pu_postId = i,
            pu_createdAt = now\<rparr>],
        post_upvote_id_seq := post_upvote_id_seq s + 1\<rparr>)"
  using assms
  by (simp add: postRouter_upvote_def loggedIn_def transaction_def upvotePost_tx_def
      find_post_def post_upvotes_of_def sql_returning_def first_map first_Nil first_Cons
      nextval_def Let_def)

lemma postRouter_upvote_success:
  "(\<exists>x s'. postRouter_upvote (Some usr) i now s = (Inr x, s')) \<longleftrightarrow>
     find_post s i \<noteq> None \<and> post_toggle_ok s (u_id usr) i"
proof (cases "int4 i")
  case False
  then show ?thesis
    by (simp add: postRouter_upvote_bad_id post_toggle_ok_def)
next
  case i: True
  show ?thesis
  proof (cases "find_post s i")
    case None
    then show ?thesis by (simp add: postRouter_upvote_missing[OF i])
  next
    case p: (Some p)
    show ?thesis
    proof (cases "post_upvotes_of s (u_id usr) i")
      case (Cons e es)
      show ?thesis
      proof (cases "fits (\<lambda>p. p_id p = i) (\<lambda>p. p_points p - 1) (posts s)")
        case True
        then show ?thesis
          using i p Cons by (simp add: postRouter_upvote_delete[OF i p Cons True] post_toggle_ok_def)
      next
        case False
        then show ?thesis
          using i p Cons postRouter_upvote_overflow[OF i, of s usr now]
          by (simp add: post_toggle_ok_def)
      qed
    next
      case Nil
      show ?thesis
      proof (cases "fits (\<lambda>p. p_id p = i) (\<lambda>p. p_points p + 1) (posts s)")
        case False
        then show ?thesis
          using i p Nil postRouter_upvote_overflow[OF i, of s usr now]
          by (simp add: post_toggle_ok_def)
      next
        case f: True
        show ?thesis
        proof (cases "post_upvote_id_seq s + 1 \<le> 2147483647")
          case False
          then show ?thesis
            using i p Nil f postRouter_upvote_exhausted[OF i p Nil f False, of now]
            by (simp add: post_toggle_ok_def)
        next
          case q: True
          show ?thesis
          proof (cases "post_upvote_id_seq s + 1 \<in> set (map pu_id (postUpvotes s))")
            case True
            then show ?thesis
              using i p Nil f q postRouter_upvote_conflict[OF i p Nil f q True, of now]
              by (simp add: post_toggle_ok_def)
          next
            case False
            then show ?thesis
              using i p Nil f q postRouter_upvote_insert[OF i p Nil f q False, of now]
              by (simp add: post_toggle_ok_def)
          qed
        qed
      qed
    qed
  qed
qed

lemma post_upvotes_of_posts_update [simp]:
  "post_upvotes_of (s\<lparr>posts := ps\<rparr>) u i = post_upvotes_of s u i"
  by (simp add: post_upvotes_of_def)

lemma post_delete_unique:
  assumes "distinct (map (\<lambda>r. (pu_userId r, pu_postId r)) rows)"
    and "filter (\<lambda>r. pu_postId r = i \<and> pu_userId r = u) rows = e # es"
  shows "filter (\<lambda>r. pu_postId r = i \<and> pu_userId r = u) (sql_delete (\<lambda>r. pu_id r = pu_id e) rows) = []"
proof -
  from assms(2) have e: "e \<in> set rows" "pu_postId e = i" "pu_userId e = u"
    using filter_Cons_mem[OF assms(2)] by auto
  have "r = e" if "r \<in> set rows" "pu_postId r = i" "pu_userId r = u" for r
    using distinct_map_eq[OF assms(1) that(1) e(1)] that e by simp
  then show ?thesis
    by (auto simp: sql_delete_def filter_empty_conv)
qed

lemma post_delete_keys:
  assumes "distinct (map pu_id rows)" and "e \<in> set rows"
  shows "set (sql_delete (\<lambda>r. pu_id r = pu_id e) rows) = set rows - {e}"
  using distinct_map_eq[OF assms(1) _ assms(2)] by (auto simp: sql_delete_def)

lemma postRouter_upvote_effect:
  assumes p: "find_post s i = Some p" and run: "postRouter_upvote (Some usr) i now s = (Inr x, s')"
  shows "x = Some \<lparr>success = True, message = ''Post updated'',
                 data = \<lparr>count = p_points p + (if post_upvotes_of s (u_id usr) i = [] then 1 else - 1),
                         isUpvoted = (post_upvotes_of s (u_id usr) i = [])\<rparr>\<rparr> \<and>
         find_post s' i =
           Some (p\<lparr>p_points := p_points p + (if post_upvotes_of s (u_id usr) i = [] then 1 else - 1)\<rparr>) \<and>
         (post_upvotes_of s (u_id usr) i = [] \<longrightarrow>
            postUpvotes s' = postUpvotes s @
              [\<lparr>pu_id = post_upvote_id_seq s + 1, pu_userId = u_id usr, pu_postId = i,
                pu_createdAt = now\<rparr>]) \<and>
         (post_upvotes_of s (u_id usr) i \<noteq> [] \<longrightarrow>
            hd (post_upvotes_of s (u_id usr) i) \<notin> set (postUpvotes s') \<and>
            set (postUpvotes s') \<subseteq> set (postUpvotes s) \<and>
            (upvote_unique s \<longrightarrow> post_upvotes_of s' (u_id usr) i = []) \<and>
            (upvote_keys s \<longrightarrow>
               set (postUpvotes s') = set (postUpvotes s) - {hd (post_upvotes_of s (u_id usr) i)}))"
proof -
  from run have "\<exists>x s'. postRouter_upvote (Some usr) i now s = (Inr x, s')" by blast
  then have ok: "post_toggle_ok s (u_id usr) i"
    by (simp add: postRouter_upvote_success)
  then have i: "int4 i" by (simp add: post_toggle_ok_def)
  from p have p': "first (filter (\<lambda>p. p_id p = i) (posts s)) = Some p"
    by (simp add: find_post_def)
  show ?thesis
  proof (cases "post_upvotes_of s (u_id usr) i")
    case Nil
    with ok have f: "fits (\<lambda>p. p_id p = i) (\<lambda>p. p_points p + 1) (posts s)"
      and q: "post_upvote_id_seq s + 1 \<le> 2147483647"
      and n: "post_upvote_id_seq s + 1 \<notin> set (map pu_id (postUpvotes s))"
      by (simp_all add: post_toggle_ok_def)
    from run postRouter_upvote_insert[OF i p Nil f q n, of now] Nil p' show ?thesis
      by (auto simp: find_post_def first_filter_post_update)
  next
    case (Cons e es)
    with ok have f: "fits (\<lambda>p. p_id p = i) (\<lambda>p. p_points p - 1) (posts s)"
      by (simp add: post_toggle_ok_def)
    have e: "e \<in> set (postUpvotes s)"
      using filter_Cons_mem[of _ "postUpvotes s" e es] Cons by (simp add: post_upvotes_of_def)
    have s': "s' = s\<lparr>posts := sql_update (\<lambda>p. p_id p = i) (\<lambda>p. p\<lparr>p_points := p_points p - 1\<rparr>) (posts s),
          postUpvotes := sql_delete (\<lambda>r. pu_id r = pu_id e) (postUpvotes s)\<rparr>"
      and x: "x = Some \<lparr>success = True, message = ''Post updated'',
                   data = \<lparr>count = p_points p - 1, isUpvoted = False\<rparr>\<rparr>"
      using run postRouter_upvote_delete[OF i p Cons f, of now] by simp_all
    have a: "find_post s' i = Some (p\<lparr>p_points := p_points p - 1\<rparr>)"
      by (simp add: s' find_post_def first_filter_post_update p')
    have b: "e \<notin> set (postUpvotes s')" "set (postUpvotes s') \<subseteq> set (postUpvotes s)"
      by (auto simp: s' sql_delete_def)
    have c: "post_upvotes_of s' (u_id usr) i = []" if "upvote_unique s"
      using post_delete_unique[of "postUpvotes s" i "u_id usr" e es] that Cons
      by (simp add: s' post_upvotes_of_def upvote_unique_def)
    have d: "set (postUpvotes s') = set (postUpvotes s) - {e}" if "upvote_keys s"
      using post_delete_keys[OF _ e] that by (simp add: s' upvote_keys_def)
    from x a b c d Cons show ?thesis by simp
  qed
qed

text \<open>The toggle of a comment goes the same ways.\<close>

lemma commentsRouter_upvote_bad_id:
  "\<not> int4 i \<Longrightarrow> commentsRouter_upvote (Some usr) i now s = (Inl PostgresError, s)"
  by (simp add: commentsRouter_upvote_def loggedIn_def transaction_def upvoteComment_tx_def)

lemma commentsRouter_upvote_missing:
  assumes "int4 i" and "find_comment s i = None"
  shows "commentsRouter_upvote (Some usr) i now s = (Inl (HTTPException 404 ''Comment not found''), s)"
proof -
  from assms(2) have e: "filter (\<lambda>p. c_id p = i) (comments s) = []"
    by (simp add: find_comment_def first_eq_None)
  show ?thesis
    using assms(1)
    by (simp add: commentsRouter_upvote_def loggedIn_def transaction_def upvoteComment_tx_def e fits_def
        sql_returning_def sql_update_def first_Nil rollback_def Let_def)
qed

lemma commentsRouter_upvote_overflow:
  assumes "int4 i"
    and "\<not> fits (\<lambda>p. c_id p = i)
            (\<lambda>p. c_points p + (if comment_upvotes_of s (u_id usr) i = [] then 1 else - 1)) (comments s)"
  shows "commentsRouter_upvote (Some usr) i now s = (Inl PostgresError, s)"
  using assms
  by (cases "comment_upvotes_of s (u_id usr) i")
    (simp_all add: commentsRouter_upvote_def loggedIn_def transaction_def upvoteComment_tx_def
      comment_upvotes_of_def first_Nil first_Cons Let_def)

lemma commentsRouter_upvote_delete:
  assumes "int4 i" and "find_comment s i = Some p" and "comment_upvotes_of s (u_id usr) i = e # es"
    and "fits (\<lambda>p. c_id p = i) (\<lambda>p. c_points p - 1) (comments s)"
  shows "commentsRouter_upvote (Some usr) i now s =
     (Inr (Some \<lparr>success = True, message = ''Comment updated'',
                 data = \<lparr>cud_count = c_points p - 1, cud_commentUpvotes = []\<rparr>\<rparr>),
      s\<lparr>comments := sql_update (\<lambda>p. c_id p = i) (\<lambda>p. p\<lparr>c_points := c_points p - 1\<rparr>) (comments s),
        commentUpvotes := sql_delete (\<lambda>r. cu_id r = cu_id e) (commentUpvotes s)\<rparr>)"
  using assms
  by (simp add: commentsRouter_upvote_def loggedIn_def transaction_def upvoteComment_tx_def
      find_comment_def comment_upvotes_of_def sql_returning_def first_map first_Nil first_Cons Let_def)

lemma commentsRouter_upvote_exhausted:
  assumes "int4 i" and "find_comment s i = Some p" and "comment_upvotes_of s (u_id usr) i = []"
    and "fits (\<lambda>p. c_id p = i) (\<lambda>p. c_points p + 1) (comments s)"
    and "\<not> comments_post_upvote_id_seq s + 1 \<le> 2147483647"
  shows "commentsRouter_upvote (Some usr) i now s = (Inl PostgresError, s)"
  using assms
  by (simp add: commentsRouter_upvote_def loggedIn_def transaction_def upvoteComment_tx_def
      find_comment_def comment_upvotes_of_def sql_returning_def first_map first_Nil first_Cons
      nextval_def rollback_def Let_def)

lemma commentsRouter_upvote_conflict:
  assumes "int4 i" and "find_comment s i = Some p" and "comment_upvotes_of s (u_id usr) i = []"
    and "fits (\<lambda>p. c_id p = i) (\<lambda>p. c_points p + 1) (comments s)"
    and "comments_post_upvote_id_seq s + 1 \<le> 2147483647"
    and "comments_post_upvote_id_seq s + 1 \<in> set (map cu_id (commentUpvotes s))"
  shows "commentsRouter_upvote (Some usr) i now s =
           (Inl PostgresError, s\<lparr>comments_post_upvote_id_seq := comments_post_upvote_id_seq s + 1\<rparr>)"
  using assms
  by (simp add: commentsRouter_upvote_def loggedIn_def transaction_def upvoteComment_tx_def
      find_comment_def comment_upvotes_of_def sql_returning_def first_map first_Nil first_Cons
      nextval_def rollback_def Let_def)

lemma commentsRouter_upvote_insert:
  assumes "int4 i" and "find_comment s i = Some p" and "comment_upvotes_of s (u_id usr) i = []"
    and "fits (\<lambda>p. c_id p = i) (\<lambda>p. c_points p + 1) (comments s)"
    and "comments_post_upvote_id_seq s + 1 \<le> 2147483647"
    and "comments_post_upvote_id_seq s + 1 \<notin> set (map cu_id (commentUpvotes s))"
  shows "commentsRouter_upvote (Some usr) i now s =
     (Inr (Some \<lparr>success = True, message = ''Comment updated'',
                 data = \<lparr>cud_count = c_points p + 1, cud_commentUpvotes = [u_id usr]\<rparr>\<rparr>),
      s\<lparr>comments := sql_update (\<lambda>p. c_id p = i) (\<lambda>p. p\<lparr>c_points := c_points p + 1\<rparr>) (comments s),
        commentUpvotes := commentUpvotes s @
          [\<lparr>cu_id = comments_post_upvote_id_seq s + 1, cu_userId = u_id usr, cu_commentId = i,
            cu_createdAt = now\<rparr>],
        comments_post_upvote_id_seq := comments_post_upvote_id_seq s + 1\<rparr>)"
  using assms
  by (simp add: commentsRouter_upvote_def loggedIn_def transaction_def upvoteComment_tx_def
      find_comment_def comment_upvotes_of_def sql_returning_def first_map first_Nil first_Cons
      nextval_def Let_def)

lemma commentsRouter_upvote_success:
  "(\<exists>x s'. commentsRouter_upvote (Some usr) i now s = (Inr x, s')) \<longleftrightarrow>
     find_comment s i \<noteq> None \<and> comment_toggle_ok s (u_id usr) i"
proof (cases "int4 i")
  case False
  then show ?thesis
    by (simp add: commentsRouter_upvote_bad_id comment_toggle_ok_def)
next
  case i: True
  show ?thesis
  proof (cases "find_comment s i")
    case None
    then show ?thesis by (simp add: commentsRouter_upvote_missing[OF i])
  next
    case p: (Some p)
    show ?thesis
    proof (cases "comment_upvotes_of s (u_id usr) i")
      case (Cons e es)
      show ?thesis
      proof (cases "fits (\<lambda>p. c_id p = i) (\<lambda>p. c_points p - 1) (comments s)")
        case True
        then show ?thesis
          using i p Cons by (simp add: commentsRouter_upvote_delete[OF i p Cons True] comment_toggle_ok_def)
      next
        case False
        then show ?thesis
          using i p Cons commentsRouter_upvote_overflow[OF i, of s usr now]
          by (simp add: comment_toggle_ok_def)
      qed
    next
      case Nil
      show ?thesis
      proof (cases "fits (\<lambda>p. c_id p = i) (\<lambda>p. c_points p + 1) (comments s)")
        case False
        then show ?thesis
          using i p Nil commentsRouter_upvote_overflow[OF i, of s usr now]
          by (simp add: comment_toggle_ok_def)
      next
        case f: True
        show ?thesis
        proof (cases "comments_post_upvote_id_seq s + 1 \<le> 2147483647")
          case False
          then show ?thesis
            using i p Nil f commentsRouter_upvote_exhausted[OF i p Nil f False, of now]
            by (simp add: comment_toggle_ok_def)
        next
          case q: True
          show ?thesis
          proof (cases "comments_post_upvote_id_seq s + 1 \<in> set (map cu_id (commentUpvotes s))")
            case True
            then show ?thesis
              using i p Nil f q commentsRouter_upvote_conflict[OF i p Nil f q True, of now]
              by (simp add: comment_toggle_ok_def)
          next
            case False
            then show ?thesis
              using i p Nil f q commentsRouter_upvote_insert[OF i p Nil f q False, of now]
              by (simp add: comment_toggle_ok_def)
          qed
        qed
      qed
    qed
  qed
qed

lemma comment_upvotes_of_comments_update [simp]:
  "comment_upvotes_of (s\<lparr>comments := ps\<rparr>) u i = comment_upvotes_of s u i"
  by (simp add: comment_upvotes_of_def)

lemma comment_delete_unique:
  assumes "distinct (map (\<lambda>r. (cu_userId r, cu_commentId r)) rows)"
    and "filter (\<lambda>r. cu_commentId r = i \<and> cu_userId r = u) rows = e # es"
  shows "filter (\<lambda>r. cu_commentId r = i \<and> cu_userId r = u) (sql_delete (\<lambda>r. cu_id r = cu_id e) rows) = []"
proof -
  from assms(2) have e: "e \<in> set rows" "cu_commentId e = i" "cu_userId e = u"
    using filter_Cons_mem[OF assms(2)] by auto
  have "r = e" if "r \<in> set rows" "cu_commentId r = i" "cu_userId r = u" for r
    using distinct_map_eq[OF assms(1) that(1) e(1)] that e by simp
  then show ?thesis
    by (auto simp: sql_delete_def filter_empty_conv)
qed

lemma comment_delete_keys:
  assumes "distinct (map cu_id rows)" and "e \<in> set rows"
  shows "set (sql_delete (\<lambda>r. cu_id r = cu_id e) rows) = set rows - {e}"
  using distinct_map_eq[OF assms(1) _ assms(2)] by (auto simp: sql_delete_def)

lemma commentsRouter_upvote_effect:
  assumes p: "find_comment s i = Some p" and run: "commentsRouter_upvote (Some usr) i now s = (Inr x, s')"
  shows "x = Some \<lparr>success = True, message = ''Comment updated'',
                 data = \<lparr>cud_count = c_points p + (if comment_upvotes_of s (u_id usr) i = [] then 1 else - 1),
                         cud_commentUpvotes =
                           (if comment_upvotes_of s (u_id usr) i = [] then [u_id usr] else [])\<rparr>\<rparr> \<and>
         find_comment s' i =
           Some (p\<lparr>c_points := c_points p + (if comment_upvotes_of s (u_id usr) i = [] then 1 else - 1)\<rparr>) \<and>
         (comment_upvotes_of s (u_id usr) i = [] \<longrightarrow>
            commentUpvotes s' = commentUpvotes s @
              [\<lparr>cu_id = comments_post_upvote_id_seq s + 1, cu_userId = u_id usr, cu_commentId = i,
                cu_createdAt = now\<rparr>]) \<and>
         (comment_upvotes_of s (u_id usr) i \<noteq> [] \<longrightarrow>
            hd (comment_upvotes_of s (u_id usr) i) \<notin> set (commentUpvotes s') \<and>
            set (commentUpvotes s') \<subseteq> set (commentUpvotes s) \<and>
            (upvote_unique s \<longrightarrow> comment_upvotes_of s' (u_id usr) i = []) \<and>
            (upvote_keys s \<longrightarrow>
               set (commentUpvotes s') = set (commentUpvotes s) - {hd (comment_upvotes_of s (u_id usr) i)}))"
proof -
  from run have "\<exists>x s'. commentsRouter_upvote (Some usr) i now s = (Inr x, s')" by blast
  then have ok: "comment_toggle_ok s (u_id usr) i"
    by (simp add: commentsRouter_upvote_success)
  then have i: "int4 i" by (simp add: comment_toggle_ok_def)
  from p have p': "first (filter (\<lambda>p. c_id p = i) (comments s)) = Some p"
    by (simp add: find_comment_def)
  show ?thesis
  proof (cases "comment_upvotes_of s (u_id usr) i")
    case Nil
    with ok have f: "fits (\<lambda>p. c_id p = i) (\<lambda>p. c_points p + 1) (comments s)"
      and q: "comments_post_upvote_id_seq s + 1 \<le> 2147483647"
      and n: "comments_post_upvote_id_seq s + 1 \<notin> set (map cu_id (commentUpvotes s))"
      by (simp_all add: comment_toggle_ok_def)
    from run commentsRouter_upvote_insert[OF i p Nil f q n, of now] Nil p' show ?thesis
      by (auto simp: find_comment_def first_filter_comment_update)
  next
    case (Cons e es)
    with ok have f: "fits (\<lambda>p. c_id p = i) (\<lambda>p. c_points p - 1) (comments s)"
      by (simp add: comment_toggle_ok_def)
    have e: "e \<in> set (commentUpvotes s)"
      using filter_Cons_mem[of _ "commentUpvotes s" e es] Cons by (simp add: comment_upvotes_of_def)
    have s': "s' = s\<lparr>comments := sql_update (\<lambda>p. c_id p = i) (\<lambda>p. p\<lparr>c_points := c_points p - 1\<rparr>) (comments s),
          commentUpvotes := sql_delete (\<lambda>r. cu_id r = cu_id e) (commentUpvotes s)\<rparr>"
      and x: "x = Some \<lparr>success = True, message = ''Comment updated'',
                   data = \<lparr>cud_count = c_points p - 1, cud_commentUpvotes = []\<rparr>\<rparr>"
      using run commentsRouter_upvote_delete[OF i p Cons f, of now] by simp_all
    have a: "find_comment s' i = Some (p\<lparr>c_points := c_points p - 1\<rparr>)"
      by (simp add: s' find_comment_def first_filter_comment_update p')
    have b: "e \<notin> set (commentUpvotes s')" "set (commentUpvotes s') \<subseteq> set (commentUpvotes s)"
      by (auto simp: s' sql_delete_def)
    have c: "comment_upvotes_of s' (u_id usr) i = []" if "upvote_unique s"
      using comment_delete_unique[of "commentUpvotes s" i "u_id usr" e es] that Cons
      by (simp add: s' comment_upvotes_of_def upvote_unique_def)
    have d: "set (commentUpvotes s') = set (commentUpvotes s) - {e}" if "upvote_keys s"
      using comment_delete_keys[OF _ e] that by (simp add: s' upvote_keys_def)
    from x a b c d Cons show ?thesis by simp
  qed
qed







section \<open>Uniqueness of votes\<close>

text \<open>
  \<open>upvote_unique\<close> says that every user has at most one vote row per post and per
  comment. It holds in the empty database, and each handler preserves it.
\<close>

lemma upvote_unique_iff:
  "upvote_unique s \<longleftrightarrow>
     (\<forall>u i. length (post_upvotes_of s u i) \<le> 1) \<and> (\<forall>u i. length (comment_upvotes_of s u i) \<le> 1)"
proof -
  have a: "(\<lambda>r. (pu_userId r, pu_postId r) = (u, i)) = (\<lambda>r. pu_postId r = i \<and> pu_userId r = u)" for u i
    by auto
  have b: "(\<lambda>r. (cu_userId r, cu_commentId r) = (u, i)) = (\<lambda>r. cu_commentId r = i \<and> cu_userId r = u)" for u i
    by auto
  show ?thesis
    by (simp only: upvote_unique_def distinct_map_count split_paired_All a b
        post_upvotes_of_def comment_upvotes_of_def)
qed

lemma upvote_unique_empty_db: "upvote_unique empty_db"
  by (simp add: upvote_unique_def empty_db_def)

lemma upvote_unique_postRouter_upvote:
  assumes "upvote_unique s"
  shows "upvote_unique (snd (postRouter_upvote ctx i now s))"
proof (cases ctx)
  case None
  then show ?thesis using assms by (simp add: postRouter_upvote_def loggedIn_def)
next
  case (Some usr)
  show ?thesis
  proof (cases "\<exists>x s'. postRouter_upvote (Some usr) i now s = (Inr x, s')")
    case True
    then obtain x s' where run: "postRouter_upvote (Some usr) i now s = (Inr x, s')" by blast
    from True obtain p where p: "find_post s i = Some p"
      by (auto simp: postRouter_upvote_success)
    note e = postRouter_upvote_effect[OF p run]
    show ?thesis
    proof (cases "post_upvotes_of s (u_id usr) i = []")
      case True
      then have "(u_id usr, i) \<notin> (\<lambda>r. (pu_userId r, pu_postId r)) ` set (postUpvotes s)"
        by (auto simp: post_upvotes_of_def filter_empty_conv)
      moreover have "commentUpvotes s' = commentUpvotes s"
        using run p True
        by (auto simp: postRouter_upvote_def loggedIn_def transaction_def upvotePost_tx_def
            nextval_def Let_def split: if_splits option.splits sum.splits)
      ultimately show ?thesis
        using assms Some run e True by (simp add: upvote_unique_def)
    next
      case False
      then obtain e' es where v: "post_upvotes_of s (u_id usr) i = e' # es"
        by (cases "post_upvotes_of s (u_id usr) i") auto
      from True have ok: "post_toggle_ok s (u_id usr) i" by (simp add: postRouter_upvote_success)
      then have i: "int4 i" and f: "fits (\<lambda>p. p_id p = i) (\<lambda>p. p_points p - 1) (posts s)"
        using v by (simp_all add: post_toggle_ok_def)
      show ?thesis
        using assms Some
        by (simp add: postRouter_upvote_delete[OF i p v f] upvote_unique_def sql_delete_def
            distinct_map_filter)
    qed
  next
    case False
    have "postUpvotes (snd (postRouter_upvote (Some usr) i now s)) = postUpvotes s \<and>
          commentUpvotes (snd (postRouter_upvote (Some usr) i now s)) = commentUpvotes s"
      using False
      by (auto simp: postRouter_upvote_def loggedIn_def transaction_def rollback_def
          split: prod.splits sum.splits)
    then show ?thesis using assms Some by (simp add: upvote_unique_def)
  qed
qed

lemma upvote_unique_commentsRouter_upvote:
  assumes "upvote_unique s"
  shows "upvote_unique (snd (commentsRouter_upvote ctx i now s))"
proof (cases ctx)
  case None
  then show ?thesis using assms by (simp add: commentsRouter_upvote_def loggedIn_def)
next
  case (Some usr)
  show ?thesis
  proof (cases "\<exists>x s'. commentsRouter_upvote (Some usr) i now s = (Inr x, s')")
    case True
    then obtain x s' where run: "commentsRouter_upvote (Some usr) i now s = (Inr x, s')" by blast
    from True obtain p where p: "find_comment s i = Some p"
      by (auto simp: commentsRouter_upvote_success)
    note e = commentsRouter_upvote_effect[OF p run]
    show ?thesis
    proof (cases "comment_upvotes_of s (u_id usr) i = []")
      case True
      then have "(u_id usr, i) \<notin> (\<lambda>r. (cu_userId r, cu_commentId r)) ` set (commentUpvotes s)"
        by (auto simp: comment_upvotes_of_def filter_empty_conv)
      moreover have "postUpvotes s' = postUpvotes s"
        using run p True
        by (auto simp: commentsRouter_upvote_def loggedIn_def transaction_def upvoteComment_tx_def
            nextval_def Let_def split: if_splits option.splits sum.splits)
      ultimately show ?thesis
        using assms Some run e True by (simp add: upvote_unique_def)
    next
      case False
      then obtain e' es where v: "comment_upvotes_of s (u_id usr) i = e' # es"
        by (cases "comment_upvotes_of s (u_id usr) i") auto
      from True have ok: "comment_toggle_ok s (u_id usr) i" by (simp add: commentsRouter_upvote_success)
      then have i: "int4 i" and f: "fits (\<lambda>p. c_id p = i) (\<lambda>p. c_points p - 1) (comments s)"
        using v by (simp_all add: comment_toggle_ok_def)
      show ?thesis
        using assms Some
        by (simp add: commentsRouter_upvote_delete[OF i p v f] upvote_unique_def sql_delete_def
            distinct_map_filter)
    qed
  next
    case False
    have "commentUpvotes (snd (commentsRouter_upvote (Some usr) i now s)) = commentUpvotes s \<and>
          postUpvotes (snd (commentsRouter_upvote (Some usr) i now s)) = postUpvotes s"
      using False
      by (auto simp: commentsRouter_upvote_def loggedIn_def transaction_def rollback_def
          split: prod.splits sum.splits)
    then show ?thesis using assms Some by (simp add: upvote_unique_def)
  qed
qed

lemma postRouter_create_votes:
  "postUpvotes (snd (postRouter_create ctx title content url now s)) = postUpvotes s \<and>
   commentUpvotes (snd (postRouter_create ctx title content url now s)) = commentUpvotes s"
  by (cases ctx)
    (simp_all add: postRouter_create_def loggedIn_def nextval_def Let_def)

lemma insert_comment_votes:
  "postUpvotes (snd (insert_comment content uid pid par d now s)) = postUpvotes s \<and>
   commentUpvotes (snd (insert_comment content uid pid par d now s)) = commentUpvotes s"
  by (simp add: insert_comment_def nextval_def Let_def)

lemma transaction_votes:
  assumes "postUpvotes (snd (body s)) = postUpvotes s \<and> commentUpvotes (snd (body s)) = commentUpvotes s"
  shows "postUpvotes (snd (transaction body s)) = postUpvotes s \<and>
         commentUpvotes (snd (transaction body s)) = commentUpvotes s"
  using assms by (cases "body s") (auto simp: transaction_def rollback_def split: sum.splits)

lemma createComment_tx_votes:
  "postUpvotes (snd (createComment_tx i content usr now s)) = postUpvotes s \<and>
   commentUpvotes (snd (createComment_tx i content usr now s)) = commentUpvotes s"
  by (simp add: createComment_tx_def insert_comment_votes Let_def split: option.splits)

lemma createReply_tx_votes:
  "postUpvotes (snd (createReply_tx i content usr now s)) = postUpvotes s \<and>
   commentUpvotes (snd (createReply_tx i content usr now s)) = commentUpvotes s"
  by (simp add: createReply_tx_def insert_comment_votes Let_def split: option.splits)

lemma postRouter_comment_votes:
  "postUpvotes (snd (postRouter_comment ctx i content now s)) = postUpvotes s \<and>
   commentUpvotes (snd (postRouter_comment ctx i content now s)) = commentUpvotes s"
proof (cases ctx)
  case None
  then show ?thesis by (simp add: postRouter_comment_def loggedIn_def)
next
  case (Some usr)
  from transaction_votes[of "createComment_tx i content usr now" s, OF createComment_tx_votes]
  show ?thesis
    by (cases "transaction (createComment_tx i content usr now) s")
      (auto simp: Some postRouter_comment_def loggedIn_def Let_def split: sum.splits)
qed

lemma commentsRouter_post_votes:
  "postUpvotes (snd (commentsRouter_post ctx i content now s)) = postUpvotes s \<and>
   commentUpvotes (snd (commentsRouter_post ctx i content now s)) = commentUpvotes s"
proof (cases ctx)
  case None
  then show ?thesis by (simp add: commentsRouter_post_def loggedIn_def)
next
  case (Some usr)
  from transaction_votes[of "createReply_tx i content usr now" s, OF createReply_tx_votes]
  show ?thesis
    by (cases "transaction (createReply_tx i content usr now) s")
      (auto simp: Some commentsRouter_post_def loggedIn_def Let_def split: sum.splits)
qed

lemma upvote_unique_run_op: "upvote_unique s \<Longrightarrow> upvote_unique (run_op op s)"
proof (cases op)
  case (CreatePost ctx title content url now)
  assume "upvote_unique s"
  then show ?thesis
    using postRouter_create_votes[of ctx title content url now s]
    by (simp add: CreatePost upvote_unique_def)
next
  case (UpvotePost ctx i now)
  assume "upvote_unique s"
  then show ?thesis by (simp add: UpvotePost upvote_unique_postRouter_upvote)
next
  case (CreateComment ctx i content now)
  assume "upvote_unique s"
  then show ?thesis
    using postRouter_comment_votes[of ctx i content now s]
    by (simp add: CreateComment upvote_unique_def)
next
  case (CreateReply ctx i content now)
  assume "upvote_unique s"
  then show ?thesis
    using commentsRouter_post_votes[of ctx i content now s]
    by (simp add: CreateReply upvote_unique_def)
next
  case (UpvoteComment ctx i now)
  assume "upvote_unique s"
  then show ?thesis by (simp add: UpvoteComment upvote_unique_commentsRouter_upvote)
qed

lemma upvote_unique_run_ops: "upvote_unique s \<Longrightarrow> upvote_unique (run_ops ops s)"
  by (induction ops arbitrary: s) (simp_all add: upvote_unique_run_op)

lemma upvote_unique_reachable: "upvote_unique (run_ops ops empty_db)"
  by (rule upvote_unique_run_ops[OF upvote_unique_empty_db])

text \<open>
  C8. From a state in which no user has two vote rows for the same post or for the same
  comment, every sequence of operations leads to such a state again: each operation
  preserves the invariant, so for every user and entity at most one row exists.
\<close>

theorem upvote_uniqueness_invariant:
  assumes "upvote_unique s"
  shows "upvote_unique (run_ops ops s) \<and>
         (\<forall>u i. length (post_upvotes_of (run_ops ops s) u i) \<le> 1) \<and>
         (\<forall>u i. length (comment_upvotes_of (run_ops ops s) u i) \<le> 1)"
  using upvote_unique_run_ops[OF assms, of ops] by (simp add: upvote_unique_iff)

theorem upvote_uniqueness_invariant_witness:
  "upvote_unique demo_db \<and>
   upvote_unique (run_ops [UpvotePost (Some bob) 1 100, UpvotePost (Some alice) 1 101,
                           UpvoteComment (Some bob) 2 102, CreateComment (Some bob) 1 ''hi'' 103,
                           UpvoteComment (Some bob) 6 104, UpvotePost (Some bob) 1 105,
                           CreateReply (Some alice) 6 ''yo'' 106, UpvotePost (Some alice) 1 107] demo_db) \<and>
   length (post_upvotes_of
            (run_ops [UpvotePost (Some bob) 1 100, UpvotePost (Some alice) 1 101,
                      UpvoteComment (Some bob) 2 102, CreateComment (Some bob) 1 ''hi'' 103,
                      UpvoteComment (Some bob) 6 104, UpvotePost (Some bob) 1 105,
                      CreateReply (Some alice) 6 ''yo'' 106, UpvotePost (Some alice) 1 107] demo_db)
            ''u1'' 1) \<le> 1"
proof -
  have h: "upvote_unique demo_db" by code_simp
  from upvote_uniqueness_invariant[OF h,
      of "[UpvotePost (Some bob) 1 100, UpvotePost (Some alice) 1 101,
           UpvoteComment (Some bob) 2 102, CreateComment (Some bob) 1 ''hi'' 103,
           UpvoteComment (Some bob) 6 104, UpvotePost (Some bob) 1 105,
           CreateReply (Some alice) 6 ''yo'' 106, UpvotePost (Some alice) 1 107]"] h
  show ?thesis by blast
qed

section \<open>Toggling twice\<close>






section \<open>The comments of a post\<close>

text \<open>
  The existence test of \<open>postRouter.get("/:id/comments")\<close>: for every id that a post has
  the handler throws the 404, and for an id that no post has it never does.
\<close>

lemma postRouter_get_comments_existing:
  "int4 i \<Longrightarrow> find_post s i \<noteq> None \<Longrightarrow>
   postRouter_get_comments ctx i q includeChildren s = Inl (HTTPException 404 ''Post not found'')"
  by (simp add: postRouter_get_comments_def find_post_def Let_def)

lemma postRouter_get_comments_missing:
  assumes "find_post s i = None" and "postRouter_get_comments ctx i q includeChildren s = Inl e"
  shows "\<not> NotFound e"
  using assms
  by (auto simp: postRouter_get_comments_def list_top_level_def find_post_def limit_offset_def
      Let_def split: if_splits sum.splits)

text \<open>
  C6. Claim: listing the top-level comments of a post fails with NotFound exactly when
  the post does not exist. The handler tests \<open>if (postExists)\<close> where the other handlers
  test for the missing row: for the existing post 1 it throws the 404, and for the id 9,
  which no post has, it succeeds with an empty page.
\<close>

theorem post_comments_check_inverted:
  "find_post demo_db 1 \<noteq> None \<and>
   postRouter_get_comments (Some alice) 1 demo_query (Some True) demo_db =
     Inl (HTTPException 404 ''Post not found'') \<and>
   find_post demo_db 9 = None \<and>
   postRouter_get_comments (Some alice) 9 demo_query (Some True) demo_db =
     Inr \<lparr>success = True, message = ''Comments Fetched'', data = [],
          pagination = \<lparr>page = 1, totalPages = Num 0\<rparr>\<rparr>"
  by code_simp

text \<open>
  The statements of that handler after the test, \<open>list_top_level\<close>: every comment they
  return carries at most 2 child comments, and none unless \<open>includeChildren\<close> is set; each
  child is a stored comment whose parent is that comment, annotated with the viewer's id
  exactly when the viewer has a vote row for it; children and top-level comments are in
  the order the query asks for.
\<close>

lemma with_commentUpvotes_eq:
  "with_commentUpvotes s v cid = (if comment_upvotes_of s v cid = [] then [] else [v])"
proof (cases "comment_upvotes_of s v cid")
  case Nil
  then show ?thesis by (simp add: with_commentUpvotes_def comment_upvotes_of_def)
next
  case (Cons e es)
  then have "cu_userId e = v"
    using filter_Cons_mem[of "\<lambda>r. cu_commentId r = cid \<and> cu_userId r = v" "commentUpvotes s" e es]
    by (simp add: comment_upvotes_of_def)
  with Cons show ?thesis by (simp add: with_commentUpvotes_def comment_upvotes_of_def)
qed

lemma ordered_order_by:
  "ordered q (order_by (q_order q) (comment_sort_column (q_sortBy q)) rows)"
proof (cases "q_order q = ''desc''")
  case True
  have "sorted (map (\<lambda>r. - comment_sort_column (q_sortBy q) r)
          (sort_key (\<lambda>r. - comment_sort_column (q_sortBy q) r) rows))"
    by (rule sorted_sort_key)
  then show ?thesis using True by (simp add: ordered_def order_by_def sorted_wrt_map)
next
  case False
  have "sorted (map (comment_sort_column (q_sortBy q)) (sort_key (comment_sort_column (q_sortBy q)) rows))"
    by (rule sorted_sort_key)
  then show ?thesis using False by (simp add: ordered_def order_by_def sorted_wrt_map)
qed

lemma ordered_take: "ordered q rows \<Longrightarrow> ordered q (take n rows)"
  by (simp add: ordered_def sorted_wrt_take)

lemma ordered_drop: "ordered q rows \<Longrightarrow> ordered q (drop n rows)"
  by (simp add: ordered_def sorted_wrt_drop)

lemma set_order_by: "set (order_by ord col rows) = set rows"
  by (simp add: order_by_def)

lemma length_order_by: "length (order_by ord col rows) = length rows"
  by (simp add: order_by_def)

lemma cj_row_comment_json: "cj_row (comment_json s v c) = c"
  by (simp add: comment_json_def)

lemma map_cj_row_child_comments:
  "map cj_row (child_comments s v q inc c) =
     take (if inc = Some True then 2 else 0)
       (order_by (q_order q) (comment_sort_column (q_sortBy q))
          (filter (\<lambda>k. c_parentCommentId k = Some (c_id c)) (comments s)))"
  by (simp add: child_comments_def comp_def cj_row_comment_json)

lemma child_comments_length:
  "length (child_comments s v q inc c) =
     (if inc = Some True
      then min 2 (length (filter (\<lambda>k. c_parentCommentId k = Some (c_id c)) (comments s)))
      else 0)"
  by (simp add: child_comments_def length_order_by min.commute)

lemma child_comments_member:
  assumes "k \<in> set (child_comments s v q inc c)"
  shows "cj_row k \<in> set (comments s) \<and> c_parentCommentId (cj_row k) = Some (c_id c) \<and>
         cj_commentUpvotes k =
           (if comment_upvotes_of s v (c_id (cj_row k)) = [] then [] else [v])"
proof -
  from assms obtain r where
    r: "r \<in> set (take (if inc = Some True then 2 else 0)
          (order_by (q_order q) (comment_sort_column (q_sortBy q))
             (filter (\<lambda>k. c_parentCommentId k = Some (c_id c)) (comments s))))"
    and k: "k = comment_json s v r"
    by (auto simp: child_comments_def)
  from r have "r \<in> set (filter (\<lambda>k. c_parentCommentId k = Some (c_id c)) (comments s))"
    using set_order_by in_set_takeD by fastforce
  with k show ?thesis by (simp add: comment_json_def with_commentUpvotes_eq)
qed

lemma child_comments_ordered: "ordered q (map cj_row (child_comments s v q inc c))"
  by (simp add: map_cj_row_child_comments ordered_take ordered_order_by)

lemma list_top_level_Inr:
  assumes "list_top_level ctx i q inc s = Inr resp"
  shows "\<exists>rows. data resp = map (comment_with_children s (viewer_id ctx) q inc) rows \<and>
           set rows \<subseteq> {c \<in> set (comments s). c_postId c = i \<and> c_parentCommentId c = None} \<and>
           ordered q rows"
proof -
  let ?m = "filter (\<lambda>c. c_postId c = i \<and> c_parentCommentId c = None) (comments s)"
  let ?sorted = "order_by (q_order q) (comment_sort_column (q_sortBy q)) ?m"
  from assms obtain rows where
    lo: "limit_offset (q_limit q) ((q_page q - 1) * q_limit q) ?sorted = Inr rows"
    and d: "data resp = map (comment_with_children s (viewer_id ctx) q inc) rows"
    by (auto simp: list_top_level_def Let_def split: sum.splits)
  from limit_offset_Inr[OF lo] have rows:
    "rows = (if 0 \<le> q_limit q
             then take (nat (q_limit q)) (drop (nat ((q_page q - 1) * q_limit q)) ?sorted)
             else drop (nat ((q_page q - 1) * q_limit q)) ?sorted)" .
  then have "set rows \<subseteq> set ?sorted"
    by (metis set_drop_subset set_take_subset subset_trans)
  then have sub: "set rows \<subseteq> {c \<in> set (comments s). c_postId c = i \<and> c_parentCommentId c = None}"
    by (auto simp: set_order_by)
  have "ordered q rows"
    unfolding rows by (simp add: ordered_take ordered_drop ordered_order_by)
  with d sub show ?thesis by blast
qed

lemma list_top_level_preview:
  assumes "list_top_level ctx i q includeChildren s = Inr resp"
    and "c \<in> set (data resp)"
  shows "length (cj_childComments c) \<le> 2 \<and>
         (includeChildren \<noteq> Some True \<longrightarrow> cj_childComments c = []) \<and>
         (includeChildren = Some True \<longrightarrow>
            length (cj_childComments c) =
              min 2 (length (filter (\<lambda>k. c_parentCommentId k = Some (c_id (cj_row c))) (comments s)))) \<and>
         (\<forall>k\<in>set (cj_childComments c).
            cj_row k \<in> set (comments s) \<and>
            c_parentCommentId (cj_row k) = Some (c_id (cj_row c)) \<and>
            cj_commentUpvotes k =
              (if comment_upvotes_of s (viewer_id ctx) (c_id (cj_row k)) = [] then []
               else [viewer_id ctx])) \<and>
         ordered q (map cj_row (cj_childComments c)) \<and>
         ordered q (map cj_row (data resp))"
proof -
  from list_top_level_Inr[OF assms(1)] obtain rows where
    d: "data resp = map (comment_with_children s (viewer_id ctx) q includeChildren) rows"
    and o: "ordered q rows"
    by blast
  from assms(2) d obtain r where
    c: "c = comment_with_children s (viewer_id ctx) q includeChildren r"
    by auto
  have ch: "cj_childComments c = child_comments s (viewer_id ctx) q includeChildren r"
    and row: "cj_row c = r"
    by (simp_all add: c comment_with_children_def)
  have "map cj_row (data resp) = rows"
    by (simp add: d comp_def comment_with_children_def)
  with o have top: "ordered q (map cj_row (data resp))" by simp
  have len: "length (cj_childComments c) \<le> 2"
    by (simp add: ch child_comments_length)
  have none: "includeChildren \<noteq> Some True \<longrightarrow> cj_childComments c = []"
    by (simp add: ch child_comments_def)
  have some: "includeChildren = Some True \<longrightarrow>
            length (cj_childComments c) =
              min 2 (length (filter (\<lambda>k. c_parentCommentId k = Some (c_id (cj_row c))) (comments s)))"
    by (simp add: ch row child_comments_length)
  have mem: "\<forall>k\<in>set (cj_childComments c).
            cj_row k \<in> set (comments s) \<and>
            c_parentCommentId (cj_row k) = Some (c_id (cj_row c)) \<and>
            cj_commentUpvotes k =
              (if comment_upvotes_of s (viewer_id ctx) (c_id (cj_row k)) = [] then []
               else [viewer_id ctx])"
    using child_comments_member[of _ s "viewer_id ctx" q includeChildren r] by (simp add: ch row)
  have ord: "ordered q (map cj_row (cj_childComments c))"
    by (simp add: ch child_comments_ordered)
  from len none some mem ord top show ?thesis by blast
qed


section \<open>Listings without a viewer\<close>







end
